theory Spec2Isabelle
  imports Main "HOL-Library.Sublist" "HOL-Library.Word"
begin

section \<open>Data model (page.tsx, lines 5-24)\<close>

text \<open>
  A JavaScript string is a sequence of 16-bit code units. The reducer stores strings and
  compares ids and never looks at a code unit, so the tasks and the reducer are defined
  for any type \<open>'u\<close> of code units, a string being a \<open>'u list\<close>. The persistence
  (\<open>JSON\<close> and \<open>localStorage\<close>) is modelled on the 16-bit code units of the
  platform, \<open>code_unit\<close>. The derived views are the one part whose result depends on
  what the platform's \<open>toLowerCase\<close> and \<open>trim\<close> do to a code unit; they are modelled
  on the characters \<open>char\<close>, the code units below \<open>0x100\<close>.

  The optional property \<open>dueDate?: string\<close> is an \<open>option\<close>; \<open>None\<close> stands both
  for "key absent" and for "key present with the value undefined", which no code of the
  page tells apart. The field \<open>id\<close> is written \<open>id'\<close>.
\<close>

type_synonym code_unit = "16 word"

type_synonym jsstring = "code_unit list"

text \<open>The code units of a string literal of the source; all of them are ASCII.\<close>

definition str :: "string \<Rightarrow> jsstring" where
  "str s = map (\<lambda>c. of_nat (of_char c)) s"

datatype Filter = All | Active | Completed

record 'u Todo =
  id' :: "'u list"
  title :: "'u list"
  "notes" :: "'u list"
  dueDate :: "'u list option"
  completed :: bool
  createdAt :: "'u list"

text \<open>
  \<open>Partial<Todo>\<close>: every key of \<open>Todo\<close> may be absent (\<open>None\<close>). For \<open>dueDate\<close>
  a present key may itself hold \<open>undefined\<close> (\<open>Some None\<close>), which is what
  \<open>saveEdit\<close> passes to clear a date. A required key explicitly set to \<open>undefined\<close>
  would leave the type \<open>Todo\<close> and is not part of the model.
\<close>

record 'u PartialTodo =
  p_id :: "'u list option"
  p_title :: "'u list option"
  p_notes :: "'u list option"
  p_dueDate :: "'u list option option"
  p_completed :: "bool option"
  p_createdAt :: "'u list option"

datatype 'u Action =
    Hydrate "'u Todo list"
  | Add "'u Todo"
  | Toggle "'u list"
  | Remove "'u list"
  | Update "'u list" "'u PartialTodo"
  | ClearCompleted

definition STORAGE_KEY :: jsstring where
  "STORAGE_KEY = str ''momentum-tasks''"

section \<open>The reducer (page.tsx, lines 26-51)\<close>

text \<open>The object spread \<open>{ ...todo, ...data }\<close>: every key present in \<open>data\<close> wins.\<close>

definition spread :: "'u Todo \<Rightarrow> 'u PartialTodo \<Rightarrow> 'u Todo" where
  "spread todo data =
     \<lparr> id' = (case p_id data of None \<Rightarrow> id' todo | Some v \<Rightarrow> v),
       title = (case p_title data of None \<Rightarrow> title todo | Some v \<Rightarrow> v),
       notes = (case p_notes data of None \<Rightarrow> notes todo | Some v \<Rightarrow> v),
       dueDate = (case p_dueDate data of None \<Rightarrow> dueDate todo | Some v \<Rightarrow> v),
       completed = (case p_completed data of None \<Rightarrow> completed todo | Some v \<Rightarrow> v),
       createdAt = (case p_createdAt data of None \<Rightarrow> createdAt todo | Some v \<Rightarrow> v) \<rparr>"

text \<open>
  The \<open>default\<close> branch of the switch is unreachable for a value of type \<open>Action\<close>
  and has no equation.
\<close>

fun todoReducer :: "'u Todo list \<Rightarrow> 'u Action \<Rightarrow> 'u Todo list" where
  "todoReducer state (Hydrate payload) = payload"
| "todoReducer state (Add payload) = payload # state"
| "todoReducer state (Toggle i) =
     map (\<lambda>todo. if id' todo = i then todo\<lparr>completed := \<not> completed todo\<rparr> else todo) state"
| "todoReducer state (Remove i) = filter (\<lambda>todo. id' todo \<noteq> i) state"
| "todoReducer state (Update i data) =
     map (\<lambda>todo. if id' todo = i then spread todo data else todo) state"
| "todoReducer state ClearCompleted = filter (\<lambda>todo. \<not> completed todo) state"

text \<open>The states after each transition of a sequence of dispatched actions, in order.\<close>

fun states_after :: "'u Todo list \<Rightarrow> 'u Action list \<Rightarrow> 'u Todo list list" where
  "states_after state [] = []"
| "states_after state (a # as) = todoReducer state a # states_after (todoReducer state a) as"

text \<open>
  Conditions on a dispatched action under which the reducer cannot introduce a second
  task with an id already in use: the reducer itself never looks at ids when it hydrates
  or adds, and \<open>Partial<Todo>\<close> admits the key \<open>id\<close>.
\<close>

fun keeps_ids_apart :: "'u Todo list \<Rightarrow> 'u Action \<Rightarrow> bool" where
  "keeps_ids_apart state (Hydrate payload) = distinct (map id' payload)"
| "keeps_ids_apart state (Add payload) = (id' payload \<notin> set (map id' state))"
| "keeps_ids_apart state (Update i data) = (p_id data = None)"
| "keeps_ids_apart state a = True"

fun ids_kept_apart :: "'u Todo list \<Rightarrow> 'u Action list \<Rightarrow> bool" where
  "ids_kept_apart state [] = True"
| "ids_kept_apart state (a # as) =
     (keeps_ids_apart state a \<and> ids_kept_apart (todoReducer state a) as)"

section \<open>Derived views (page.tsx, lines 145-160)\<close>

text \<open>
  \<open>String.prototype.trim\<close>, \<open>toLowerCase\<close> and \<open>includes\<close> are functions of the
  platform. On code units below \<open>0x100\<close> the white space and line terminators that
  \<open>trim\<close> strips are TAB, LF, VT, FF, CR, SP and NBSP, and \<open>toLowerCase\<close> maps
  \<open>A\<close>-\<open>Z\<close> and the capital letters \<open>0xC0\<close>-\<open>0xDE\<close> (without the
  multiplication sign \<open>0xD7\<close>) to the code unit \<open>0x20\<close> higher and nothing else.
\<close>

definition isWhiteSpace :: "char \<Rightarrow> bool" where
  "isWhiteSpace c = ((of_char c :: nat) \<in> {0x09, 0x0A, 0x0B, 0x0C, 0x0D, 0x20, 0xA0})"

definition trim :: "string \<Rightarrow> string" where
  "trim s = rev (dropWhile isWhiteSpace (rev (dropWhile isWhiteSpace s)))"

definition toLowerCase_unit :: "char \<Rightarrow> char" where
  "toLowerCase_unit c =
     (let n = (of_char c :: nat)
      in if (0x41 \<le> n \<and> n \<le> 0x5A) \<or> (0xC0 \<le> n \<and> n \<le> 0xDE \<and> n \<noteq> 0xD7)
         then char_of (n + 0x20) else c)"

definition toLowerCase :: "string \<Rightarrow> string" where
  "toLowerCase s = map toLowerCase_unit s"

text \<open>\<open>haystack.includes(searchString)\<close>: some suffix of the haystack starts with the search string.\<close>

fun includes' :: "string \<Rightarrow> string \<Rightarrow> bool" where
  "includes' [] searchString = (searchString = [])"
| "includes' (c # cs) searchString =
     (prefix searchString (c # cs) \<or> includes' cs searchString)"

definition filteredTodos :: "char Todo list \<Rightarrow> Filter \<Rightarrow> string \<Rightarrow> char Todo list" where
  "filteredTodos todos filter' query =
     (let normalizedQuery = toLowerCase (trim query)
      in filter (\<lambda>todo.
           if filter' = Active \<and> completed todo then False
           else if filter' = Completed \<and> \<not> completed todo then False
           else if normalizedQuery = [] then True
           else includes' (toLowerCase (title todo @ '' '' @ notes todo)) normalizedQuery)
         todos)"

definition remainingCount :: "'u Todo list \<Rightarrow> nat" where
  "remainingCount todos = length (filter (\<lambda>todo. \<not> completed todo) todos)"

section \<open>JSON\<close>

text \<open>
  \<open>JSON.parse\<close> and \<open>JSON.stringify\<close> are functions of the platform. They are
  modelled after ECMA-262 (\<open>JSON.parse\<close>, \<open>QuoteJSONString\<close>,
  \<open>SerializeJSONProperty\<close>, \<open>SerializeJSONObject\<close>, \<open>SerializeJSONArray\<close>) and
  the grammar of ECMA-404, on texts of 16-bit code units. A number is kept as its token;
  nothing below reads its value. In the result of a parser, \<open>None\<close> stands for the
  \<open>SyntaxError\<close> that \<open>JSON.parse\<close> throws. The members of a parsed object are
  kept in the order of the text; of a key that occurs twice the last occurrence counts.
\<close>

datatype json =
    JNull
  | JBool bool
  | JNumber jsstring
  | JString jsstring
  | JArray "json list"
  | JObject "(jsstring \<times> json) list"

text \<open>The code units of the punctuation of a JSON text.\<close>

abbreviation QUOTE :: code_unit where "QUOTE \<equiv> 0x22"
abbreviation BACKSLASH :: code_unit where "BACKSLASH \<equiv> 0x5C"
abbreviation LBRACE :: code_unit where "LBRACE \<equiv> 0x7B"
abbreviation RBRACE :: code_unit where "RBRACE \<equiv> 0x7D"
abbreviation LBRACKET :: code_unit where "LBRACKET \<equiv> 0x5B"
abbreviation RBRACKET :: code_unit where "RBRACKET \<equiv> 0x5D"
abbreviation COMMA :: code_unit where "COMMA \<equiv> 0x2C"
abbreviation COLON :: code_unit where "COLON \<equiv> 0x3A"
abbreviation MINUS :: code_unit where "MINUS \<equiv> 0x2D"
abbreviation PLUS :: code_unit where "PLUS \<equiv> 0x2B"
abbreviation DOT :: code_unit where "DOT \<equiv> 0x2E"

subsection \<open>Parsing\<close>

text \<open>
  White space is TAB, LF, CR and SP. A digit is \<open>0\<close>-\<open>9\<close> (\<open>0x30\<close>-\<open>0x39\<close>); a
  hexadecimal digit is a digit, \<open>A\<close>-\<open>F\<close> (from \<open>0x41\<close>) or \<open>a\<close>-\<open>f\<close> (from
  \<open>0x61\<close>).
\<close>

definition isJSONWhiteSpace :: "code_unit \<Rightarrow> bool" where
  "isJSONWhiteSpace c = (c = 0x09 \<or> c = 0x0A \<or> c = 0x0D \<or> c = 0x20)"

definition skip_ws :: "jsstring \<Rightarrow> jsstring" where
  "skip_ws s = dropWhile isJSONWhiteSpace s"

definition isDigit :: "code_unit \<Rightarrow> bool" where
  "isDigit c = (0x30 \<le> c \<and> c \<le> 0x39)"

definition hexValue :: "code_unit \<Rightarrow> nat option" where
  "hexValue c =
     (let n = unat c
      in if 0x30 \<le> n \<and> n \<le> 0x39 then Some (n - 0x30)
         else if 0x41 \<le> n \<and> n \<le> 0x46 then Some (n - 0x37)
         else if 0x61 \<le> n \<and> n \<le> 0x66 then Some (n - 0x57)
         else None)"

definition hex4 :: "jsstring \<Rightarrow> (code_unit \<times> jsstring) option" where
  "hex4 s =
     (case s of
        h1 # h2 # h3 # h4 # rest \<Rightarrow>
          (case hexValue h1 of None \<Rightarrow> None | Some a \<Rightarrow>
           case hexValue h2 of None \<Rightarrow> None | Some b \<Rightarrow>
           case hexValue h3 of None \<Rightarrow> None | Some c \<Rightarrow>
           case hexValue h4 of None \<Rightarrow> None | Some d \<Rightarrow>
             Some (of_nat (((a * 16 + b) * 16 + c) * 16 + d), rest))
      | _ \<Rightarrow> None)"

text \<open>
  The code unit that stands after a backslash, and the one the two stand for: the quote,
  the backslash, \<open>/\<close>, and \<open>b\<close>, \<open>f\<close>, \<open>n\<close>, \<open>r\<close>, \<open>t\<close> for BS, FF, LF, CR,
  TAB. After \<open>u\<close> (\<open>0x75\<close>) come four hexadecimal digits.
\<close>

definition unescape :: "code_unit \<Rightarrow> code_unit option" where
  "unescape e =
     (if e = QUOTE then Some QUOTE
      else if e = BACKSLASH then Some BACKSLASH
      else if e = 0x2F then Some 0x2F
      else if e = 0x62 then Some 0x08
      else if e = 0x66 then Some 0x0C
      else if e = 0x6E then Some 0x0A
      else if e = 0x72 then Some 0x0D
      else if e = 0x74 then Some 0x09
      else None)"

lemma hex4_shorter: "hex4 s = Some (u, r) \<Longrightarrow> length r < length s"
  by (auto simp: hex4_def split: list.splits option.splits)

text \<open>The characters of a string after its opening quote, up to the closing quote.\<close>

function parse_chars :: "jsstring \<Rightarrow> (jsstring \<times> jsstring) option" where
  "parse_chars [] = None"
| "parse_chars (c # cs) =
     (if c = QUOTE then Some ([], cs)
      else if c = BACKSLASH then
        (case cs of
           [] \<Rightarrow> None
         | e # es \<Rightarrow>
             if e = 0x75 then
               (case hex4 es of
                  None \<Rightarrow> None
                | Some (u, rest) \<Rightarrow>
                    (case parse_chars rest of
                       None \<Rightarrow> None
                     | Some (units, r) \<Rightarrow> Some (u # units, r)))
             else
               (case unescape e of
                  None \<Rightarrow> None
                | Some u \<Rightarrow>
                    (case parse_chars es of
                       None \<Rightarrow> None
                     | Some (units, r) \<Rightarrow> Some (u # units, r))))
      else if c < 0x20 then None
      else
        (case parse_chars cs of
           None \<Rightarrow> None
         | Some (units, r) \<Rightarrow> Some (c # units, r)))"
  by pat_completeness auto
termination
  by (relation "measure length") (auto dest: hex4_shorter)

text \<open>
  A number: an optional minus sign, \<open>0\<close> or a digit sequence without leading zero, an
  optional fraction and an optional exponent, which starts with \<open>e\<close> (\<open>0x65\<close>) or
  \<open>E\<close> (\<open>0x45\<close>). The token is returned with the rest.
\<close>

definition parse_fraction :: "jsstring \<Rightarrow> jsstring option" where
  "parse_fraction s =
     (case s of
        [] \<Rightarrow> Some s
      | c # r \<Rightarrow>
          if c = DOT then
            (if takeWhile isDigit r = [] then None else Some (dropWhile isDigit r))
          else Some s)"

definition parse_exponent :: "jsstring \<Rightarrow> jsstring option" where
  "parse_exponent s =
     (case s of
        [] \<Rightarrow> Some s
      | c # r \<Rightarrow>
          if c = 0x65 \<or> c = 0x45 then
            (let r' = (case r of [] \<Rightarrow> r | d # r2 \<Rightarrow> if d = PLUS \<or> d = MINUS then r2 else r)
             in if takeWhile isDigit r' = [] then None else Some (dropWhile isDigit r'))
          else Some s)"

definition parse_number :: "jsstring \<Rightarrow> (jsstring \<times> jsstring) option" where
  "parse_number s =
     (let s1 = (case s of [] \<Rightarrow> s | c # r \<Rightarrow> if c = MINUS then r else s)
      in case s1 of
           [] \<Rightarrow> None
         | c # r \<Rightarrow>
             if \<not> isDigit c then None
             else
               (let s2 = (if c = 0x30 then r else dropWhile isDigit r)
                in case parse_fraction s2 of
                     None \<Rightarrow> None
                   | Some s3 \<Rightarrow>
                       (case parse_exponent s3 of
                          None \<Rightarrow> None
                        | Some s4 \<Rightarrow> Some (take (length s - length s4) s, s4))))"

definition parse_literal :: "jsstring \<Rightarrow> (json \<times> jsstring) option" where
  "parse_literal s =
     (if prefix (str ''true'') s then Some (JBool True, drop 4 s)
      else if prefix (str ''false'') s then Some (JBool False, drop 5 s)
      else if prefix (str ''null'') s then Some (JNull, drop 4 s)
      else None)"

text \<open>
  A value; the elements of a non-empty array up to and including its closing bracket;
  the members of a non-empty object up to and including its closing brace. Each returns
  what it read and the rest of the text.
\<close>

function parse_value :: "jsstring \<Rightarrow> (json \<times> jsstring) option"
  and parse_elements :: "jsstring \<Rightarrow> (json list \<times> jsstring) option"
  and parse_members :: "jsstring \<Rightarrow> ((jsstring \<times> json) list \<times> jsstring) option"
where
  "parse_value s =
     (case s of
        [] \<Rightarrow> None
      | c # cs \<Rightarrow>
          if c = LBRACE then
            (case skip_ws cs of
               [] \<Rightarrow> None
             | d # r \<Rightarrow>
                 if d = RBRACE then Some (JObject [], r)
                 else
                   (case parse_members (skip_ws cs) of
                      None \<Rightarrow> None
                    | Some (kvs, r') \<Rightarrow> Some (JObject kvs, r')))
          else if c = LBRACKET then
            (case skip_ws cs of
               [] \<Rightarrow> None
             | d # r \<Rightarrow>
                 if d = RBRACKET then Some (JArray [], r)
                 else
                   (case parse_elements (skip_ws cs) of
                      None \<Rightarrow> None
                    | Some (vs, r') \<Rightarrow> Some (JArray vs, r')))
          else if c = QUOTE then
            (case parse_chars cs of
               None \<Rightarrow> None
             | Some (units, r) \<Rightarrow> Some (JString units, r))
          else if c = MINUS \<or> isDigit c then
            (case parse_number s of
               None \<Rightarrow> None
             | Some (lexeme, r) \<Rightarrow> Some (JNumber lexeme, r))
          else parse_literal s)"
| "parse_elements s =
     (case parse_value s of
        None \<Rightarrow> None
      | Some (v, r) \<Rightarrow>
          (case skip_ws r of
             [] \<Rightarrow> None
           | d # r' \<Rightarrow>
               if d = COMMA then
                 (case parse_elements (skip_ws r') of
                    None \<Rightarrow> None
                  | Some (vs, r'') \<Rightarrow> Some (v # vs, r''))
               else if d = RBRACKET then Some ([v], r')
               else None))"
| "parse_members s =
     (case s of
        [] \<Rightarrow> None
      | q # cs \<Rightarrow>
          if q \<noteq> QUOTE then None
          else
            (case parse_chars cs of
               None \<Rightarrow> None
             | Some (k, r) \<Rightarrow>
                 (case skip_ws r of
                    [] \<Rightarrow> None
                  | colon # r1 \<Rightarrow>
                      if colon \<noteq> COLON then None
                      else
                        (case parse_value (skip_ws r1) of
                           None \<Rightarrow> None
                         | Some (v, r2) \<Rightarrow>
                             (case skip_ws r2 of
                                [] \<Rightarrow> None
                              | d # r3 \<Rightarrow>
                                  if d = COMMA then
                                    (case parse_members (skip_ws r3) of
                                       None \<Rightarrow> None
                                     | Some (kvs, r4) \<Rightarrow> Some ((k, v) # kvs, r4))
                                  else if d = RBRACE then Some ([(k, v)], r3)
                                  else None)))))"
  by pat_completeness auto

text \<open>
  Whatever a parser returns as the rest is no longer than its input. With that, every
  recursive call is on a shorter text, or on the same text by \<open>parse_value\<close> from
  \<open>parse_elements\<close>, and the recursion terminates.
\<close>

lemma skip_ws_length: "length (skip_ws s) \<le> length s"
  by (simp add: skip_ws_def length_dropWhile_le)

lemma parse_chars_shorter: "parse_chars s = Some (k, r) \<Longrightarrow> length r < length s"
proof (induction s arbitrary: k r rule: parse_chars.induct)
  case 1
  then show ?case by simp
next
  case (2 c cs)
  then show ?case
    by (fastforce split: if_splits list.splits option.splits prod.splits dest: hex4_shorter)
qed

lemma parse_fraction_length: "parse_fraction s = Some r \<Longrightarrow> length r \<le> length s"
  by (auto simp: parse_fraction_def split: list.splits if_splits
      intro: le_trans [OF length_dropWhile_le])

lemma parse_exponent_length: "parse_exponent s = Some r \<Longrightarrow> length r \<le> length s"
  by (auto simp: parse_exponent_def Let_def split: list.splits if_splits
      intro: le_trans [OF length_dropWhile_le])

lemma parse_number_length: "parse_number s = Some (l, r) \<Longrightarrow> length r \<le> length s"
  by (auto simp: parse_number_def Let_def split: list.splits if_splits option.splits
      dest!: parse_fraction_length parse_exponent_length
      dest: order_trans [OF _ length_dropWhile_le])

lemma parse_literal_length: "parse_literal s = Some (v, r) \<Longrightarrow> length r \<le> length s"
  by (auto simp: parse_literal_def split: if_splits)

lemma parse_dom_length:
  "parse_value_parse_elements_parse_members_dom (Inl s) \<Longrightarrow>
     parse_value s = Some (v, r) \<Longrightarrow> length r \<le> length s"
  "parse_value_parse_elements_parse_members_dom (Inr (Inl s1)) \<Longrightarrow>
     parse_elements s1 = Some (vs, r1) \<Longrightarrow> length r1 \<le> length s1"
  "parse_value_parse_elements_parse_members_dom (Inr (Inr s2)) \<Longrightarrow>
     parse_members s2 = Some (kvs, r2) \<Longrightarrow> length r2 \<le> length s2"
proof (induction s and s1 and s2 arbitrary: v r and vs r1 and kvs r2
    rule: parse_value_parse_elements_parse_members.pinduct)
  case (1 s)
  show ?case
  proof (cases s)
    case Nil
    with "1.prems" "1.hyps" show ?thesis by (simp add: parse_value.psimps)
  next
    case (Cons c cs)
    note ws = skip_ws_length [of cs]
    note * = "1.prems" [unfolded parse_value.psimps [OF "1.hyps"]]
    consider (obj) "c = LBRACE" | (arr) "c \<noteq> LBRACE" "c = LBRACKET"
      | (str) "c \<noteq> LBRACE" "c \<noteq> LBRACKET" "c = QUOTE"
      | (num) "c \<noteq> LBRACE" "c \<noteq> LBRACKET" "c \<noteq> QUOTE" "c = MINUS \<or> isDigit c"
      | (lit) "c \<noteq> LBRACE" "c \<noteq> LBRACKET" "c \<noteq> QUOTE" "\<not> (c = MINUS \<or> isDigit c)"
      by blast
    then show ?thesis
    proof cases
      case obj
      show ?thesis
      proof (cases "skip_ws cs")
        case Nil
        with * Cons obj show ?thesis by simp
      next
        case (Cons d r0)
        show ?thesis
        proof (cases "d = RBRACE")
          case True
          with * \<open>s = c # cs\<close> obj Cons ws show ?thesis by auto
        next
          case False
          with * \<open>s = c # cs\<close> obj Cons obtain kvs where
            "parse_members (skip_ws cs) = Some (kvs, r)"
            by (auto split: option.splits)
          from "1.IH"(1) [OF \<open>s = c # cs\<close> obj Cons False this] ws \<open>s = c # cs\<close>
          show ?thesis by simp
        qed
      qed
    next
      case arr
      show ?thesis
      proof (cases "skip_ws cs")
        case Nil
        with * Cons arr show ?thesis by simp
      next
        case (Cons d r0)
        show ?thesis
        proof (cases "d = RBRACKET")
          case True
          with * \<open>s = c # cs\<close> arr Cons ws show ?thesis by auto
        next
          case False
          with * \<open>s = c # cs\<close> arr Cons obtain vs where
            "parse_elements (skip_ws cs) = Some (vs, r)"
            by (auto split: option.splits)
          from "1.IH"(2) [OF \<open>s = c # cs\<close> arr Cons False this] ws \<open>s = c # cs\<close>
          show ?thesis by simp
        qed
      qed
    next
      case str
      with * Cons show ?thesis
        by (auto split: option.splits dest!: parse_chars_shorter)
    next
      case num
      with * Cons show ?thesis
        by (auto split: option.splits dest!: parse_number_length)
    next
      case lit
      with * Cons show ?thesis
        by (auto dest!: parse_literal_length)
    qed
  qed
next
  case (2 s)
  note * = "2.prems" [unfolded parse_elements.psimps [OF "2.hyps"]]
  from * obtain v r where pv: "parse_value s = Some (v, r)"
    by (auto split: option.splits)
  from "2.IH"(1) [OF pv] have len: "length r \<le> length s" .
  from * pv obtain d r' where sk: "skip_ws r = d # r'"
    by (auto split: list.splits)
  from sk skip_ws_length [of r] have len': "length r' < length r" by simp
  show ?case
  proof (cases "d = COMMA")
    case True
    with * pv sk obtain vs' where pe: "parse_elements (skip_ws r') = Some (vs', r1)"
      by (auto split: option.splits)
    from "2.IH"(2) [OF pv refl sk True pe] skip_ws_length [of r'] len len'
    show ?thesis by simp
  next
    case False
    with * pv sk len len' show ?thesis by (auto split: if_splits)
  qed
next
  case (3 s)
  note * = "3.prems" [unfolded parse_members.psimps [OF "3.hyps"]]
  from * obtain q cs where s: "s = q # cs" and q: "\<not> q \<noteq> QUOTE"
    by (auto split: list.splits if_splits)
  from * s q obtain k r where pc: "parse_chars cs = Some (k, r)"
    by (auto split: option.splits)
  from * s q pc obtain colon ra where sk: "skip_ws r = colon # ra"
    and colon: "\<not> colon \<noteq> COLON"
    by (auto split: list.splits if_splits)
  from * s q pc sk colon obtain v rb where pv: "parse_value (skip_ws ra) = Some (v, rb)"
    by (auto split: option.splits)
  from * s q pc sk colon pv obtain d rc where sk2: "skip_ws rb = d # rc"
    by (auto split: list.splits)
  have l1: "length r < length cs" using pc by (rule parse_chars_shorter)
  have l2: "length ra < length r" using sk skip_ws_length [of r] by simp
  have l3: "length rb \<le> length ra"
    using "3.IH"(1) [OF s q pc refl sk colon pv] skip_ws_length [of ra] by simp
  have l4: "length rc < length rb" using sk2 skip_ws_length [of rb] by simp
  show ?case
  proof (cases "d = COMMA")
    case True
    with * s q pc sk colon pv sk2 obtain kvs' where
      pm: "parse_members (skip_ws rc) = Some (kvs', r2)"
      by (auto split: option.splits)
    from "3.IH"(2) [OF s q pc refl sk colon pv refl sk2 True pm] skip_ws_length [of rc]
      l1 l2 l3 l4 s
    show ?thesis by simp
  next
    case False
    with * s q pc sk colon pv sk2 l1 l2 l3 l4 show ?thesis
      by (auto split: if_splits)
  qed
qed

termination parse_value
proof (relation "measure (\<lambda>x. case x of
      Inl s \<Rightarrow> 2 * length s
    | Inr (Inl s) \<Rightarrow> 2 * length s + 1
    | Inr (Inr s) \<Rightarrow> 2 * length s + 1)", goal_cases)
  case 1
  show ?case by simp
next
  case (2 s c cs d r)
  then show ?case using skip_ws_length [of cs] by simp
next
  case (3 s c cs d r)
  then show ?case using skip_ws_length [of cs] by simp
next
  case (4 s)
  then show ?case by simp
next
  case (5 s x2 v r d r')
  then show ?case
    using parse_dom_length(1) [of s v r] skip_ws_length [of r] skip_ws_length [of r']
    by simp
next
  case (6 s q cs x2 k r colon ra)
  then show ?case
    using parse_chars_shorter [of cs k r] skip_ws_length [of r] skip_ws_length [of ra]
    by simp
next
  case (7 s q cs x2 k r colon ra x2a v rb d rc)
  then show ?case
    using parse_chars_shorter [of cs k r] skip_ws_length [of r] skip_ws_length [of ra]
      parse_dom_length(1) [of "skip_ws ra" v rb] skip_ws_length [of rb] skip_ws_length [of rc]
    by simp
qed

declare parse_value.simps [simp del] parse_elements.simps [simp del] parse_members.simps [simp del]

text \<open>\<open>JSON.parse(text)\<close>: one value, with white space around it and nothing else.\<close>

definition JSON_parse :: "jsstring \<Rightarrow> json option" where
  "JSON_parse text =
     (case parse_value (skip_ws text) of
        None \<Rightarrow> None
      | Some (v, r) \<Rightarrow> if skip_ws r = [] then Some v else None)"

subsection \<open>Serialising the state\<close>

text \<open>
  \<open>QuoteJSONString\<close> goes through the code points of the string. It escapes the quote,
  the backslash and the control characters, writes a surrogate that has no partner as a
  Unicode escape of four lower-case hexadecimal digits, and leaves every other code
  unit, the two halves of a surrogate pair included, as it is.
\<close>

definition hexDigit :: "nat \<Rightarrow> code_unit" where
  "hexDigit d = of_nat (if d < 10 then 0x30 + d else 0x57 + d)"

definition UnicodeEscape :: "code_unit \<Rightarrow> jsstring" where
  "UnicodeEscape c =
     (let n = unat c
      in [BACKSLASH, 0x75, hexDigit (n div 16 div 16 div 16), hexDigit (n div 16 div 16 mod 16),
          hexDigit (n div 16 mod 16), hexDigit (n mod 16)])"

definition isLeadingSurrogate :: "code_unit \<Rightarrow> bool" where
  "isLeadingSurrogate c = (0xD800 \<le> c \<and> c \<le> 0xDBFF)"

definition isTrailingSurrogate :: "code_unit \<Rightarrow> bool" where
  "isTrailingSurrogate c = (0xDC00 \<le> c \<and> c \<le> 0xDFFF)"

text \<open>
  The text of a code point that is one code unit: \<open>\b\<close>, \<open>\t\<close>, \<open>\n\<close>, \<open>\f\<close>,
  \<open>\r\<close>, the escaped quote and backslash, a Unicode escape, or the code unit.
\<close>

definition escape_unit :: "code_unit \<Rightarrow> jsstring" where
  "escape_unit c =
     (if c = 0x08 then [BACKSLASH, 0x62]
      else if c = 0x09 then [BACKSLASH, 0x74]
      else if c = 0x0A then [BACKSLASH, 0x6E]
      else if c = 0x0C then [BACKSLASH, 0x66]
      else if c = 0x0D then [BACKSLASH, 0x72]
      else if c = QUOTE then [BACKSLASH, QUOTE]
      else if c = BACKSLASH then [BACKSLASH, BACKSLASH]
      else if c < 0x20 \<or> isLeadingSurrogate c \<or> isTrailingSurrogate c then UnicodeEscape c
      else [c])"

fun quote_units :: "jsstring \<Rightarrow> jsstring" where
  "quote_units [] = []"
| "quote_units [c] = escape_unit c"
| "quote_units (c # d # cs) =
     (if isLeadingSurrogate c \<and> isTrailingSurrogate d then c # d # quote_units cs
      else escape_unit c @ quote_units (d # cs))"

definition QuoteJSONString :: "jsstring \<Rightarrow> jsstring" where
  "QuoteJSONString s = QUOTE # quote_units s @ [QUOTE]"

fun join :: "'a list \<Rightarrow> 'a list list \<Rightarrow> 'a list" where
  "join sep [] = []"
| "join sep [x] = x"
| "join sep (x # y # ys) = x @ sep @ join sep (y # ys)"

text \<open>
  The state that \<open>JSON.stringify\<close> is given is an array of objects. An object is the
  list of its own properties, key and value, in the order in which the platform
  enumerates them; that order depends on how the object was built (\<open>addTodo\<close> writes
  \<open>id\<close>, \<open>title\<close>, \<open>notes\<close>, \<open>dueDate\<close>, \<open>completed\<close>, \<open>createdAt\<close>; an
  object that was parsed has the order of its text; a spread that adds a key puts it
  last). The values that a property of a task holds are strings, booleans and
  \<open>undefined\<close>.
\<close>

datatype jsvalue = Undefined | Bool bool | Str jsstring

type_synonym jsobject = "(jsstring \<times> jsvalue) list"

text \<open>
  \<open>JSON.stringify(state)\<close>, without indentation: the objects between brackets,
  separated by commas; in an object, the members \<open>"key":value\<close> between braces,
  separated by commas, in the order of the properties. A property whose value is
  \<open>undefined\<close> is left out.
\<close>

definition SerializeJSONProperty :: "jsvalue \<Rightarrow> jsstring option" where
  "SerializeJSONProperty v =
     (case v of
        Undefined \<Rightarrow> None
      | Bool b \<Rightarrow> Some (if b then str ''true'' else str ''false'')
      | Str s \<Rightarrow> Some (QuoteJSONString s))"

fun members :: "jsobject \<Rightarrow> jsstring list" where
  "members [] = []"
| "members ((k, v) # props) =
     (case SerializeJSONProperty v of
        None \<Rightarrow> members props
      | Some text \<Rightarrow> (QuoteJSONString k @ COLON # text) # members props)"

definition SerializeJSONObject :: "jsobject \<Rightarrow> jsstring" where
  "SerializeJSONObject props = LBRACE # join [COMMA] (members props) @ [RBRACE]"

definition SerializeJSONArray :: "jsobject list \<Rightarrow> jsstring" where
  "SerializeJSONArray objs = LBRACKET # join [COMMA] (map SerializeJSONObject objs) @ [RBRACKET]"

text \<open>
  An object is a task of type \<open>Todo\<close> if its keys are distinct, as the keys of an
  object are, and its properties hold the fields of the task, in any order; a task
  without due date has no property \<open>dueDate\<close> or one that holds \<open>undefined\<close>.
  Properties under other keys are not looked at.
\<close>

definition represents :: "jsobject \<Rightarrow> code_unit Todo \<Rightarrow> bool" where
  "represents props todo =
     (distinct (map fst props)
      \<and> map_of props (str ''id'') = Some (Str (id' todo))
      \<and> map_of props (str ''title'') = Some (Str (title todo))
      \<and> map_of props (str ''notes'') = Some (Str (notes todo))
      \<and> (case dueDate todo of
            None \<Rightarrow> map_of props (str ''dueDate'') = None
                    \<or> map_of props (str ''dueDate'') = Some Undefined
          | Some d \<Rightarrow> map_of props (str ''dueDate'') = Some (Str d))
      \<and> map_of props (str ''completed'') = Some (Bool (completed todo))
      \<and> map_of props (str ''createdAt'') = Some (Str (createdAt todo)))"

text \<open>
  The typed state does not record the order of the keys of its objects. For a state of
  type \<open>Todo[]\<close>, \<open>JSON_stringify\<close> is the text of the objects as \<open>addTodo\<close> builds
  them (lines 80-87), with the property \<open>dueDate\<close> holding \<open>undefined\<close> where the
  task has no due date.
\<close>

definition object_of_Todo :: "code_unit Todo \<Rightarrow> jsobject" where
  "object_of_Todo todo =
     [(str ''id'', Str (id' todo)),
      (str ''title'', Str (title todo)),
      (str ''notes'', Str (notes todo)),
      (str ''dueDate'', (case dueDate todo of None \<Rightarrow> Undefined | Some d \<Rightarrow> Str d)),
      (str ''completed'', Bool (completed todo)),
      (str ''createdAt'', Str (createdAt todo))]"

definition JSON_stringify :: "code_unit Todo list \<Rightarrow> jsstring" where
  "JSON_stringify state = SerializeJSONArray (map object_of_Todo state)"

text \<open>
  The value that \<open>JSON.parse\<close> builds from the text of an object: its properties in
  the same order, without those that hold \<open>undefined\<close>.
\<close>

fun parsed_value :: "jsvalue \<Rightarrow> json option" where
  "parsed_value Undefined = None"
| "parsed_value (Bool b) = Some (JBool b)"
| "parsed_value (Str s) = Some (JString s)"

fun parsed_members :: "jsobject \<Rightarrow> (jsstring \<times> json) list" where
  "parsed_members [] = []"
| "parsed_members ((k, v) # props) =
     (case parsed_value v of
        None \<Rightarrow> parsed_members props
      | Some j \<Rightarrow> (k, j) # parsed_members props)"

definition parsed_object :: "jsobject \<Rightarrow> json" where
  "parsed_object props = JObject (parsed_members props)"

text \<open>
  A parsed value read as a \<open>Todo[]\<close>: an array of objects that hold the required
  fields of a task with values of their types, and under \<open>dueDate\<close> a string or
  nothing. Any other value (\<open>None\<close>) is no state of type \<open>Todo[]\<close>.
\<close>

definition as_string :: "json option \<Rightarrow> jsstring option" where
  "as_string v = (case v of Some (JString s) \<Rightarrow> Some s | _ \<Rightarrow> None)"

definition as_boolean :: "json option \<Rightarrow> bool option" where
  "as_boolean v = (case v of Some (JBool b) \<Rightarrow> Some b | _ \<Rightarrow> None)"

definition Todo_of_json :: "json \<Rightarrow> code_unit Todo option" where
  "Todo_of_json v =
     (case v of
        JObject kvs \<Rightarrow>
          (let prop = map_of (rev kvs)
           in case (as_string (prop (str ''id'')), as_string (prop (str ''title'')),
                    as_string (prop (str ''notes'')), as_boolean (prop (str ''completed'')),
                    as_string (prop (str ''createdAt''))) of
                (Some i, Some t, Some n, Some c, Some a) \<Rightarrow>
                  (case prop (str ''dueDate'') of
                     None \<Rightarrow>
                       Some \<lparr> id' = i, title = t, notes = n, dueDate = None,
                              completed = c, createdAt = a \<rparr>
                   | Some d \<Rightarrow>
                       (case as_string (Some d) of
                          None \<Rightarrow> None
                        | Some due \<Rightarrow>
                            Some \<lparr> id' = i, title = t, notes = n, dueDate = Some due,
                                   completed = c, createdAt = a \<rparr>))
              | _ \<Rightarrow> None)
      | _ \<Rightarrow> None)"

definition Todos_of_json :: "json \<Rightarrow> code_unit Todo list option" where
  "Todos_of_json v =
     (case v of
        JArray vs \<Rightarrow>
          (if list_all (\<lambda>x. Todo_of_json x \<noteq> None) vs
           then Some (map (\<lambda>x. the (Todo_of_json x)) vs) else None)
      | _ \<Rightarrow> None)"

section \<open>The hook's effects (page.tsx, lines 53-74)\<close>

text \<open>
  \<open>window.localStorage\<close> is a store of items by key whose calls may throw, where the
  browser denies or cannot serve them.
\<close>

datatype exn = StorageError | SyntaxError

record Storage =
  items :: "jsstring \<rightharpoonup> jsstring"
  readable :: bool
  writable :: bool

definition getItem :: "Storage \<Rightarrow> jsstring \<Rightarrow> exn + jsstring option" where
  "getItem st key = (if readable st then Inr (items st key) else Inl StorageError)"

definition setItem :: "Storage \<Rightarrow> jsstring \<Rightarrow> jsstring \<Rightarrow> exn + Storage" where
  "setItem st key v =
     (if writable st then Inr (st\<lparr>items := (items st)(key \<mapsto> v)\<rparr>) else Inl StorageError)"

text \<open>
  The hydration effect (lines 57-69). The body of its \<open>try\<close> reads the item, and
  parses it unless it is \<open>null\<close> or the empty string (\<open>if (stored)\<close>); it ends with
  the payload it dispatches, if any, or with the exception thrown. The annotation
  \<open>const parsed: Todo[]\<close> is not checked when the page runs: whatever value
  \<open>JSON.parse\<close> returns is dispatched.
\<close>

definition hydration_try :: "Storage \<Rightarrow> exn + json option" where
  "hydration_try st =
     (case getItem st STORAGE_KEY of
        Inl e \<Rightarrow> Inl e
      | Inr stored \<Rightarrow>
          (case stored of
             None \<Rightarrow> Inr None
           | Some text \<Rightarrow>
               if text = [] then Inr None
               else
                 (case JSON_parse text of
                    None \<Rightarrow> Inl SyntaxError
                  | Some parsed \<Rightarrow> Inr (Some parsed))))"

text \<open>
  The \<open>catch\<close> clause handles every exception of the body by logging it, and the
  \<open>finally\<close> clause sets the latch on both paths: what the effect has done when it
  returns, and \<open>Inl\<close> for an exception that leaves it.
\<close>

record hydration =
  dispatched :: "json option"
  logged :: "exn option"
  setHydrated :: bool

definition hydration_effect :: "Storage \<Rightarrow> exn + hydration" where
  "hydration_effect st =
     (case hydration_try st of
        Inl error \<Rightarrow> Inr \<lparr> dispatched = None, logged = Some error, setHydrated = True \<rparr>
      | Inr payload \<Rightarrow> Inr \<lparr> dispatched = payload, logged = None, setHydrated = True \<rparr>)"

text \<open>
  The store after the updates queued by the hydration effect are applied to the initial
  values \<open>useReducer(todoReducer, [])\<close> and \<open>useState(false)\<close>: the state, as the
  value it is, and the latch. The case \<open>hydrate\<close> of the reducer returns its payload,
  whatever that value is.
\<close>

definition hydrated_store :: "Storage \<Rightarrow> exn + json \<times> bool" where
  "hydrated_store st =
     (case hydration_effect st of
        Inl e \<Rightarrow> Inl e
      | Inr h \<Rightarrow>
          Inr (case dispatched h of None \<Rightarrow> JArray [] | Some payload \<Rightarrow> payload,
               setHydrated h))"

text \<open>
  The write-back effect (lines 71-74) runs after every render in which \<open>state\<close> or
  \<open>hydrated\<close> has changed, with the values of that render. Nothing around
  \<open>setItem\<close> catches what it throws. The session holds the state at its declared
  type \<open>Todo[]\<close>.
\<close>

record session =
  todos :: "code_unit Todo list"
  hydrated :: bool
  localStorage :: Storage

definition write_back_effect :: "session \<Rightarrow> exn + session" where
  "write_back_effect s =
     (if \<not> hydrated s then Inr s
      else
        (case setItem (localStorage s) STORAGE_KEY (JSON_stringify (todos s)) of
           Inl e \<Rightarrow> Inl e
         | Inr st \<Rightarrow> Inr (s\<lparr>localStorage := st\<rparr>)))"

text \<open>
  A dispatched action: the reducer returns a new array in every case, so the component
  renders again and the write-back effect runs with the new state.
\<close>

definition dispatch :: "code_unit Action \<Rightarrow> session \<Rightarrow> exn + session" where
  "dispatch a s = write_back_effect (s\<lparr>todos := todoReducer (todos s) a\<rparr>)"

fun run :: "session \<Rightarrow> code_unit Action list \<Rightarrow> exn + session" where
  "run s [] = Inr s"
| "run s (a # as) = (case dispatch a s of Inl e \<Rightarrow> Inl e | Inr s' \<Rightarrow> run s' as)"

text \<open>
  The first commit: both effects run with the values of the first render, so the
  write-back effect sees \<open>hydrated = false\<close>; then the updates of the hydration effect
  are applied, the component renders again and the write-back effect runs with the new
  values. The result is the session after that, or what takes the page out of the
  sessions described here: an exception that nothing catches, or a hydrated state that
  is no \<open>Todo[]\<close>, with which the page goes on all the same.
\<close>

datatype outside = Uncaught exn | Untyped json

definition startup :: "Storage \<Rightarrow> outside + session" where
  "startup st =
     (case write_back_effect \<lparr> todos = [], hydrated = False, localStorage = st \<rparr> of
        Inl e \<Rightarrow> Inl (Uncaught e)
      | Inr s0 \<Rightarrow>
          (case hydrated_store st of
             Inl e \<Rightarrow> Inl (Uncaught e)
           | Inr (state, latch) \<Rightarrow>
               (case Todos_of_json state of
                  None \<Rightarrow> Inl (Untyped state)
                | Some ts \<Rightarrow>
                    (case write_back_effect (s0\<lparr>todos := ts, hydrated := latch\<rparr>) of
                       Inl e \<Rightarrow> Inl (Uncaught e)
                     | Inr s1 \<Rightarrow> Inr s1))))"

section \<open>Sample data\<close>

text \<open>
  Tasks, a partial field set and a storage for the closed instances below; \<open>wide\<close>
  gives a task written in characters as the platform holds it.
\<close>

abbreviation milk :: "char Todo" where
  "milk \<equiv> \<lparr> id' = ''a'', title = ''Buy milk'', notes = [], dueDate = None,
             completed = False, createdAt = ''2024-01-01T00:00:00.000Z'' \<rparr>"

abbreviation bread :: "char Todo" where
  "bread \<equiv> \<lparr> id' = ''b'', title = ''Bake bread'', notes = ''rye'', dueDate = Some ''2024-02-01'',
              completed = True, createdAt = ''2024-01-02T00:00:00.000Z'' \<rparr>"

abbreviation ab_cd :: "char Todo" where
  "ab_cd \<equiv> \<lparr> id' = ''c'', title = ''ab'', notes = ''cd'', dueDate = None,
              completed = False, createdAt = ''2024-01-03T00:00:00.000Z'' \<rparr>"

abbreviation no_fields :: "char PartialTodo" where
  "no_fields \<equiv> \<lparr> p_id = None, p_title = None, p_notes = None, p_dueDate = None,
                  p_completed = None, p_createdAt = None \<rparr>"

definition wide :: "char Todo \<Rightarrow> code_unit Todo" where
  "wide todo =
     \<lparr> id' = str (id' todo), title = str (title todo), notes = str (notes todo),
       dueDate = map_option str (dueDate todo), completed = completed todo,
       createdAt = str (createdAt todo) \<rparr>"

text \<open>
  A task that was hydrated without due date and then given one by \<open>saveEdit\<close>: the
  key \<open>dueDate\<close> comes last. Its title is not Latin-1, its notes hold a surrogate
  pair, a surrogate without partner and a line feed.
\<close>

abbreviation late_object :: jsobject where
  "late_object \<equiv>
     [(str ''id'', Str (str ''z'')),
      (str ''title'', Str [0x017B, 0xF3, 0x0142, 0x77]),
      (str ''notes'', Str [0xD83D, 0xDE00, 0xD800, 0x0A]),
      (str ''completed'', Bool False),
      (str ''createdAt'', Str (str ''2024-01-03T00:00:00.000Z'')),
      (str ''dueDate'', Str (str ''2024-03-01''))]"

abbreviation late :: "code_unit Todo" where
  "late \<equiv> \<lparr> id' = str ''z'', title = [0x017B, 0xF3, 0x0142, 0x77],
             notes = [0xD83D, 0xDE00, 0xD800, 0x0A], dueDate = Some (str ''2024-03-01''),
             completed = False, createdAt = str ''2024-01-03T00:00:00.000Z'' \<rparr>"

abbreviation browser :: "(jsstring \<rightharpoonup> jsstring) \<Rightarrow> Storage" where
  "browser m \<equiv> \<lparr> items = m, readable = True, writable = True \<rparr>"

section \<open>Properties of the reducer\<close>

subsection \<open>Uniqueness of ids\<close>

lemma map_id_toggle:
  "map id' (todoReducer state (Toggle i)) = map id' state"
  by (induction state) auto

lemma map_id_update:
  "p_id data = None \<Longrightarrow> map id' (todoReducer state (Update i data)) = map id' state"
  by (induction state) (auto simp: spread_def)

lemma distinct_ids_step:
  assumes "distinct (map id' state)" and "keeps_ids_apart state a"
  shows "distinct (map id' (todoReducer state a))"
proof (cases a)
  case (Toggle i)
  then show ?thesis using assms(1) by (simp only: map_id_toggle)
next
  case (Update i data)
  then show ?thesis using assms by (simp only: map_id_update keeps_ids_apart.simps)
qed (use assms in \<open>auto simp: distinct_map_filter\<close>)

lemma distinct_ids_run:
  "distinct (map id' state) \<Longrightarrow> ids_kept_apart state as \<Longrightarrow>
   \<forall>s \<in> set (states_after state as). distinct (map id' s)"
proof (induction as arbitrary: state)
  case Nil
  then show ?case by simp
next
  case (Cons a as)
  from Cons.prems have step: "distinct (map id' (todoReducer state a))"
    by (simp add: distinct_ids_step)
  from Cons.prems have "ids_kept_apart (todoReducer state a) as" by simp
  with step Cons.IH show ?case by simp
qed

text \<open>
  C1 as stated fails: the reducer prepends whatever task it is given. Adding the same
  task twice leaves two tasks with the id \<open>a\<close>.
\<close>

theorem C1_add_same_id_twice:
  "\<not> distinct (map id' (last (states_after [] [Add milk, Add milk])))"
  by simp

text \<open>The two other ways: a hydrate payload with a repeated id, and an update that rewrites an id.\<close>

lemma hydrate_repeated_id:
  "\<not> distinct (map id' (todoReducer [] (Hydrate [milk, milk])))"
  by simp

lemma update_rewrites_id:
  "\<not> distinct (map id' (todoReducer [bread, milk] (Update ''a'' (no_fields\<lparr>p_id := Some ''b''\<rparr>))))"
  by (simp add: spread_def)

text \<open>
  C1 (amended). Starting from the empty state, if every hydrate payload has pairwise
  distinct ids, every added task carries an id not yet in the state, and no update
  carries the key \<open>id\<close>, then the ids are pairwise distinct after every transition.
\<close>

theorem C1_ids_distinct_after_every_transition:
  assumes "ids_kept_apart [] as"
  shows "\<forall>s \<in> set (states_after [] as). distinct (map id' s)"
  using distinct_ids_run [of "[]" as] assms by simp

theorem C1_ids_distinct_witness:
  "ids_kept_apart []
     [Add milk, Add bread, Toggle ''a'', Update ''b'' (no_fields\<lparr>p_title := Some ''Bake''\<rparr>),
      ClearCompleted, Remove ''b'', Hydrate [bread, milk]]
   \<and> list_all (\<lambda>s. distinct (map id' s))
       (states_after []
         [Add milk, Add bread, Toggle ''a'', Update ''b'' (no_fields\<lparr>p_title := Some ''Bake''\<rparr>),
          ClearCompleted, Remove ''b'', Hydrate [bread, milk]])"
proof -
  have ok: "ids_kept_apart []
     [Add milk, Add bread, Toggle ''a'', Update ''b'' (no_fields\<lparr>p_title := Some ''Bake''\<rparr>),
      ClearCompleted, Remove ''b'', Hydrate [bread, milk]]"
    by (simp add: spread_def)
  from C1_ids_distinct_after_every_transition [OF ok] ok show ?thesis
    by (simp only: list_all_iff simp_thms)
qed

subsection \<open>What update and the other transitions leave alone\<close>

lemma update_nth:
  "k < length state \<Longrightarrow>
   todoReducer state (Update i data) ! k =
     (if id' (state ! k) = i then spread (state ! k) data else state ! k)"
  by simp

lemma toggle_nth:
  "k < length state \<Longrightarrow>
   todoReducer state (Toggle i) ! k =
     (if id' (state ! k) = i then (state ! k)\<lparr>completed := \<not> completed (state ! k)\<rparr>
      else state ! k)"
  by simp

lemma map_createdAt_update:
  "p_createdAt data = None \<Longrightarrow>
   map createdAt (todoReducer state (Update i data)) = map createdAt state"
  by (induction state) (auto simp: spread_def)

lemma map_createdAt_toggle:
  "map createdAt (todoReducer state (Toggle i)) = map createdAt state"
  by (induction state) auto

text \<open>
  C2 as stated fails: the payload of update is a \<open>Partial<Todo>\<close>, and the spread
  copies every key it carries, \<open>id\<close> and \<open>createdAt\<close> included.
\<close>

theorem C2_update_rewrites_id_and_createdAt:
  "id' (hd (todoReducer [milk]
      (Update ''a'' (no_fields\<lparr>p_id := Some ''z'', p_createdAt := Some ''1999''\<rparr>)))) = ''z''
   \<and> createdAt (hd (todoReducer [milk]
      (Update ''a'' (no_fields\<lparr>p_id := Some ''z'', p_createdAt := Some ''1999''\<rparr>)))) = ''1999''
   \<and> id' milk = ''a'' \<and> createdAt milk = ''2024-01-01T00:00:00.000Z''"
  by (simp add: spread_def)

text \<open>
  C2 (amended). For every state, id and partial field set that carries neither the key
  \<open>id\<close> nor the key \<open>createdAt\<close>, update keeps the number and positions of the
  tasks, leaves every task with another id as it is, and leaves the \<open>id\<close> and
  \<open>createdAt\<close> of every task as they are, so that it changes at most \<open>title\<close>,
  \<open>notes\<close>, \<open>dueDate\<close> and \<open>completed\<close> of the tasks with the given id. Toggle
  changes no \<open>id\<close> and no \<open>createdAt\<close> either; remove and clearCompleted only
  drop tasks, and add leaves the tasks behind the new one as they were.
\<close>

theorem C2_update_frame:
  assumes "p_id data = None" and "p_createdAt data = None"
  shows "length (todoReducer state (Update i data)) = length state
    \<and> (\<forall>k < length state. id' (state ! k) \<noteq> i \<longrightarrow>
          todoReducer state (Update i data) ! k = state ! k)
    \<and> map id' (todoReducer state (Update i data)) = map id' state
    \<and> map createdAt (todoReducer state (Update i data)) = map createdAt state
    \<and> map id' (todoReducer state (Toggle j)) = map id' state
    \<and> map createdAt (todoReducer state (Toggle j)) = map createdAt state
    \<and> set (todoReducer state (Remove j)) \<subseteq> set state
    \<and> set (todoReducer state ClearCompleted) \<subseteq> set state
    \<and> tl (todoReducer state (Add t)) = state"
proof -
  have "length (todoReducer state (Update i data)) = length state" by simp
  moreover have "\<forall>k < length state. id' (state ! k) \<noteq> i \<longrightarrow>
      todoReducer state (Update i data) ! k = state ! k"
    using update_nth by simp
  moreover note map_id_update [OF assms(1)] map_createdAt_update [OF assms(2)]
    map_id_toggle map_createdAt_toggle
  moreover have "set (todoReducer state (Remove j)) \<subseteq> set state" by auto
  moreover have "set (todoReducer state ClearCompleted) \<subseteq> set state" by auto
  moreover have "tl (todoReducer state (Add t)) = state" by simp
  ultimately show ?thesis by blast
qed

theorem C2_update_frame_witness:
  "todoReducer [bread, milk] (Update ''a'' (no_fields\<lparr>p_title := Some ''Buy oat milk'',
       p_dueDate := Some None, p_completed := Some True\<rparr>))
     = [bread, milk\<lparr>title := ''Buy oat milk'', completed := True\<rparr>]
   \<and> map id' (todoReducer [bread, milk] (Update ''a'' (no_fields\<lparr>p_title := Some ''Buy oat milk'',
       p_dueDate := Some None, p_completed := Some True\<rparr>))) = [''b'', ''a'']
   \<and> map createdAt (todoReducer [bread, milk] (Update ''a'' (no_fields\<lparr>p_title := Some ''Buy oat milk'',
       p_dueDate := Some None, p_completed := Some True\<rparr>)))
     = [''2024-01-02T00:00:00.000Z'', ''2024-01-01T00:00:00.000Z'']"
  using C2_update_frame [of "no_fields\<lparr>p_title := Some ''Buy oat milk'',
       p_dueDate := Some None, p_completed := Some True\<rparr>" "[bread, milk]" "''a''" "''a''" milk]
  by (simp add: spread_def)

subsection \<open>Order of the tasks\<close>

text \<open>
  C5. Add puts the new task at index 0 and every task of the prior state one index
  further down. Toggle and update keep the length, and index \<open>k\<close> holds the (possibly
  changed) task that was at index \<open>k\<close>; remove and clearCompleted return a subsequence
  of the prior state, so the tasks they keep stand in their prior relative order.
\<close>

theorem C5_order_of_tasks:
  "todoReducer state (Add t) ! 0 = t
   \<and> length (todoReducer state (Add t)) = Suc (length state)
   \<and> (\<forall>k < length state. todoReducer state (Add t) ! Suc k = state ! k)
   \<and> length (todoReducer state (Toggle i)) = length state
   \<and> (\<forall>k < length state. todoReducer state (Toggle i) ! k =
        (if id' (state ! k) = i then (state ! k)\<lparr>completed := \<not> completed (state ! k)\<rparr>
         else state ! k))
   \<and> length (todoReducer state (Update i data)) = length state
   \<and> (\<forall>k < length state. todoReducer state (Update i data) ! k =
        (if id' (state ! k) = i then spread (state ! k) data else state ! k))
   \<and> subseq (todoReducer state (Remove i)) state
   \<and> subseq (todoReducer state ClearCompleted) state"
proof -
  have "\<forall>k < length state. todoReducer state (Toggle i) ! k =
        (if id' (state ! k) = i then (state ! k)\<lparr>completed := \<not> completed (state ! k)\<rparr>
         else state ! k)"
    using toggle_nth by blast
  moreover have "\<forall>k < length state. todoReducer state (Update i data) ! k =
        (if id' (state ! k) = i then spread (state ! k) data else state ! k)"
    using update_nth by blast
  ultimately show ?thesis by simp
qed

theorem C5_order_of_tasks_witness:
  "todoReducer [bread, milk] (Add (milk\<lparr>id' := ''c''\<rparr>)) = [milk\<lparr>id' := ''c''\<rparr>, bread, milk]
   \<and> todoReducer [bread, milk] (Toggle ''a'') = [bread, milk\<lparr>completed := True\<rparr>]
   \<and> todoReducer [bread, milk] (Update ''a'' (no_fields\<lparr>p_notes := Some ''2 l''\<rparr>))
        = [bread, milk\<lparr>notes := ''2 l''\<rparr>]
   \<and> subseq (todoReducer [bread, milk] (Remove ''b'')) [bread, milk]
   \<and> subseq (todoReducer [bread, milk] ClearCompleted) [bread, milk]"
  using C5_order_of_tasks [of "[bread, milk]" "milk\<lparr>id' := ''c''\<rparr>" "''a''"
      "no_fields\<lparr>p_notes := Some ''2 l''\<rparr>"]
    C5_order_of_tasks [of "[bread, milk]" milk "''b''" no_fields]
  by (simp add: spread_def)

subsection \<open>clearCompleted\<close>

text \<open>
  C6. The state returned by clearCompleted holds no completed task; it is a
  subsequence of the prior state, so every task it keeps is a task of the prior state,
  unchanged, in its prior relative order; and it keeps every task that was not completed.
\<close>

theorem C6_clearCompleted:
  "(\<forall>t \<in> set (todoReducer state ClearCompleted). \<not> completed t)
   \<and> subseq (todoReducer state ClearCompleted) state
   \<and> (\<forall>t \<in> set state. \<not> completed t \<longrightarrow> t \<in> set (todoReducer state ClearCompleted))"
  by simp

theorem C6_clearCompleted_witness:
  "todoReducer [bread, milk, bread] ClearCompleted = [milk]
   \<and> \<not> completed milk \<and> subseq [milk] [bread, milk, bread]"
  using C6_clearCompleted [of "[bread, milk, bread]"] by simp

subsection \<open>Toggle twice\<close>

text \<open>
  C7. Toggling the same id twice in succession gives back the state before either
  toggle. The code does so for every id, present in the state or not.
\<close>

theorem C7_toggle_twice:
  "todoReducer (todoReducer state (Toggle i)) (Toggle i) = state"
  by (induction state) auto

theorem C7_toggle_twice_witness:
  "todoReducer [bread, milk] (Toggle ''a'') = [bread, milk\<lparr>completed := True\<rparr>]
   \<and> todoReducer (todoReducer [bread, milk] (Toggle ''a'')) (Toggle ''a'') = [bread, milk]"
  using C7_toggle_twice [of "[bread, milk]" "''a''"] by simp

subsection \<open>Absent ids\<close>

text \<open>
  C8. The reducer is a function of the state and the action alone: it reads nothing
  else and writes nothing, and each of its six branches returns a list (no branch of
  the source raises), which is why \<open>todoReducer\<close> is a total function into
  \<open>Todo list\<close> with no error value. For an id that no task of the state carries,
  toggle, remove and update return the state as it was.
\<close>

theorem C8_absent_id_is_noop:
  assumes "i \<notin> set (map id' state)"
  shows "todoReducer state (Toggle i) = state
    \<and> todoReducer state (Remove i) = state
    \<and> todoReducer state (Update i data) = state"
proof -
  from assms have no: "\<forall>t \<in> set state. id' t \<noteq> i" by auto
  then have "todoReducer state (Toggle i) = state" by (simp add: map_idI)
  moreover from no have "todoReducer state (Remove i) = state" by simp
  moreover from no have "todoReducer state (Update i data) = state" by (simp add: map_idI)
  ultimately show ?thesis by simp
qed

theorem C8_absent_id_is_noop_witness:
  "''zz'' \<notin> set (map id' [bread, milk])
   \<and> todoReducer [bread, milk] (Toggle ''zz'') = [bread, milk]
   \<and> todoReducer [bread, milk] (Remove ''zz'') = [bread, milk]
   \<and> todoReducer [bread, milk] (Update ''zz'' (no_fields\<lparr>p_title := Some ''x''\<rparr>)) = [bread, milk]"
proof -
  have absent: "''zz'' \<notin> set (map id' [bread, milk])" by simp
  from C8_absent_id_is_noop [OF absent, of "no_fields\<lparr>p_title := Some ''x''\<rparr>"] absent
  show ?thesis by simp
qed

section \<open>Parsing what was serialised\<close>

text \<open>
  A quoted string is read back as the string it was written for, code unit by code unit:
  a Unicode escape gives back its code unit, and so does every other escape.
\<close>

lemma unat_hexDigit:
  "d < 16 \<Longrightarrow> unat (hexDigit d) = (if d < 10 then 0x30 + d else 0x57 + d)"
  by (simp add: hexDigit_def unat_of_nat)

lemma hexValue_hexDigit: "d < 16 \<Longrightarrow> hexValue (hexDigit d) = Some d"
  by (auto simp: hexValue_def Let_def unat_hexDigit)

lemma hex4_UnicodeEscape:
  "hex4 (drop 2 (UnicodeEscape c) @ rest) = Some (c, rest)"
proof -
  have "unat c < 2 ^ 16" using unsigned_less [of c, where ?'a = nat] by simp
  then have "unat c div 16 div 16 div 16 < 16" by simp
  then show ?thesis
    by (simp add: UnicodeEscape_def Let_def hex4_def hexValue_hexDigit)
qed

lemma parse_chars_UnicodeEscape:
  "parse_chars (UnicodeEscape c @ rest) =
     (case parse_chars rest of None \<Rightarrow> None | Some (units, r) \<Rightarrow> Some (c # units, r))"
proof -
  have "UnicodeEscape c = BACKSLASH # 0x75 # drop 2 (UnicodeEscape c)"
    by (simp add: UnicodeEscape_def Let_def)
  then have "parse_chars (UnicodeEscape c @ rest)
      = parse_chars (BACKSLASH # 0x75 # (drop 2 (UnicodeEscape c) @ rest))"
    by (metis append_Cons)
  then show ?thesis
    by (simp add: hex4_UnicodeEscape split: option.splits)
qed

lemma parse_chars_escape_unit:
  "parse_chars (escape_unit c @ rest) =
     (case parse_chars rest of None \<Rightarrow> None | Some (units, r) \<Rightarrow> Some (c # units, r))"
  by (auto simp: escape_unit_def unescape_def parse_chars_UnicodeEscape split: option.splits)

lemma surrogate_plain:
  "isLeadingSurrogate c \<or> isTrailingSurrogate c \<Longrightarrow>
   c \<noteq> QUOTE \<and> c \<noteq> BACKSLASH \<and> \<not> c < 0x20"
  by (auto simp: isLeadingSurrogate_def isTrailingSurrogate_def word_le_nat_alt word_less_nat_alt)

lemma parse_chars_surrogate:
  "isLeadingSurrogate c \<or> isTrailingSurrogate c \<Longrightarrow>
   parse_chars (c # rest) =
     (case parse_chars rest of None \<Rightarrow> None | Some (units, r) \<Rightarrow> Some (c # units, r))"
  using surrogate_plain [of c] by (simp split: option.splits)

lemma parse_chars_quoted:
  "parse_chars (quote_units s @ QUOTE # rest) = Some (s, rest)"
proof (induction s rule: quote_units.induct)
  case 1
  show ?case by simp
next
  case (2 c)
  show ?case by (simp add: parse_chars_escape_unit)
next
  case (3 c d cs)
  show ?case
  proof (cases "isLeadingSurrogate c \<and> isTrailingSurrogate d")
    case True
    then have "quote_units (c # d # cs) = c # d # quote_units cs" by simp
    moreover from True 3 have "parse_chars (quote_units cs @ QUOTE # rest) = Some (cs, rest)"
      by blast
    ultimately show ?thesis
      using True by (simp add: parse_chars_surrogate del: parse_chars.simps quote_units.simps)
  next
    case False
    then have "quote_units (c # d # cs) = escape_unit c @ quote_units (d # cs)" by auto
    moreover from False 3 have "parse_chars (quote_units (d # cs) @ QUOTE # rest) = Some (d # cs, rest)"
      by blast
    ultimately show ?thesis
      by (simp add: parse_chars_escape_unit del: parse_chars.simps quote_units.simps)
  qed
qed

text \<open>
  The text of a property value is read back as that value, the text of a member as the
  key and the value, and the members of an object, whatever their order, as the
  properties that do not hold \<open>undefined\<close>, in the same order.
\<close>

lemma skip_ws_Cons: "\<not> isJSONWhiteSpace c \<Longrightarrow> skip_ws (c # cs) = c # cs"
  by (simp add: skip_ws_def)

lemma not_ws [simp]:
  "\<not> isJSONWhiteSpace COMMA" "\<not> isJSONWhiteSpace RBRACE"
  "\<not> isJSONWhiteSpace RBRACKET" "\<not> isJSONWhiteSpace LBRACE"
  "\<not> isJSONWhiteSpace LBRACKET" "\<not> isJSONWhiteSpace QUOTE"
  "\<not> isJSONWhiteSpace COLON"
  by (simp_all add: isJSONWhiteSpace_def)

lemma parse_value_string:
  "parse_value (QuoteJSONString s @ rest) = Some (JString s, rest)"
  by (simp add: parse_value.simps QuoteJSONString_def parse_chars_quoted)

lemma parse_value_true: "parse_value (str ''true'' @ rest) = Some (JBool True, rest)"
  by (simp add: parse_value.simps parse_literal_def isDigit_def str_def)

lemma parse_value_false: "parse_value (str ''false'' @ rest) = Some (JBool False, rest)"
  by (simp add: parse_value.simps parse_literal_def isDigit_def str_def)

lemma parse_value_property:
  assumes "SerializeJSONProperty v = Some text"
  shows "\<exists>j. parsed_value v = Some j \<and> parse_value (text @ rest) = Some (j, rest)"
    and "\<exists>c cs. text = c # cs \<and> \<not> isJSONWhiteSpace c"
proof -
  show "\<exists>j. parsed_value v = Some j \<and> parse_value (text @ rest) = Some (j, rest)"
  proof (cases v)
    case Undefined
    with assms show ?thesis by (simp add: SerializeJSONProperty_def)
  next
    case (Bool b)
    with assms show ?thesis
      by (cases b) (auto simp: SerializeJSONProperty_def parse_value_true parse_value_false)
  next
    case (Str s)
    with assms show ?thesis by (auto simp: SerializeJSONProperty_def parse_value_string)
  qed
  show "\<exists>c cs. text = c # cs \<and> \<not> isJSONWhiteSpace c"
    using assms
    by (cases v)
       (auto simp: SerializeJSONProperty_def QuoteJSONString_def str_def isJSONWhiteSpace_def
          split: if_splits)
qed

lemma join_Cons: "xs \<noteq> [] \<Longrightarrow> join sep (x # xs) = x @ sep @ join sep xs"
  by (cases xs) simp_all

lemma parse_members_quote:
  "parse_members (QUOTE # cs) =
     (case parse_chars cs of
        None \<Rightarrow> None
      | Some (k, r) \<Rightarrow>
          (case skip_ws r of
             [] \<Rightarrow> None
           | colon # r1 \<Rightarrow>
               if colon \<noteq> COLON then None
               else
                 (case parse_value (skip_ws r1) of
                    None \<Rightarrow> None
                  | Some (v, r2) \<Rightarrow>
                      (case skip_ws r2 of
                         [] \<Rightarrow> None
                       | d # r3 \<Rightarrow>
                           if d = COMMA then
                             (case parse_members (skip_ws r3) of
                                None \<Rightarrow> None
                              | Some (kvs, r4) \<Rightarrow> Some ((k, v) # kvs, r4))
                           else if d = RBRACE then Some ([(k, v)], r3)
                           else None))))"
  by (simp add: parse_members.simps [of "QUOTE # cs"])

lemma parse_members_member:
  assumes ser: "SerializeJSONProperty v = Some text"
    and d: "\<not> isJSONWhiteSpace d"
  shows "\<exists>j. parsed_value v = Some j \<and>
     parse_members ((QuoteJSONString k @ COLON # text) @ d # xs) =
       (if d = COMMA then
          (case parse_members (skip_ws xs) of
             None \<Rightarrow> None
           | Some (kvs, r) \<Rightarrow> Some ((k, j) # kvs, r))
        else if d = RBRACE then Some ([(k, j)], xs)
        else None)"
proof -
  from parse_value_property(1) [OF ser, of "d # xs"] obtain j where
    j: "parsed_value v = Some j" and val: "parse_value (text @ d # xs) = Some (j, d # xs)"
    by blast
  from parse_value_property(2) [OF ser] obtain c cs where
    c: "text = c # cs" "\<not> isJSONWhiteSpace c" by blast
  have "parse_members ((QuoteJSONString k @ COLON # text) @ d # xs) =
       (if d = COMMA then
          (case parse_members (skip_ws xs) of
             None \<Rightarrow> None
           | Some (kvs, r) \<Rightarrow> Some ((k, j) # kvs, r))
        else if d = RBRACE then Some ([(k, j)], xs)
        else None)"
    using val c d
    by (simp add: QuoteJSONString_def parse_members_quote parse_chars_quoted skip_ws_Cons)
  with j show ?thesis by blast
qed

lemma members_empty_iff: "members props = [] \<longleftrightarrow> parsed_members props = []"
  by (induction props rule: members.induct)
     (auto simp: SerializeJSONProperty_def split: jsvalue.splits)

lemma join_members_Cons:
  "members props \<noteq> [] \<Longrightarrow> \<exists>cs. join [COMMA] (members props) = QUOTE # cs"
proof -
  assume "members props \<noteq> []"
  then obtain m ms where ms: "members props = m # ms" by (cases "members props") auto
  have "\<exists>cs. m = QUOTE # cs"
    using ms
    by (induction props rule: members.induct)
       (auto simp: QuoteJSONString_def split: option.splits)
  then obtain cs where "m = QUOTE # cs" by blast
  then show ?thesis by (cases ms) (simp_all add: ms)
qed

lemma parse_members_members:
  "members props \<noteq> [] \<Longrightarrow>
   parse_members (join [COMMA] (members props) @ RBRACE # rest) = Some (parsed_members props, rest)"
proof (induction props rule: members.induct)
  case 1
  then show ?case by simp
next
  case (2 k v props)
  show ?case
  proof (cases "SerializeJSONProperty v")
    case None
    then have "v = Undefined" by (cases v) (simp_all add: SerializeJSONProperty_def)
    with 2 None show ?thesis by simp
  next
    case (Some mtext)
    show ?thesis
    proof (cases "members props = []")
      case True
      from parse_members_member [OF Some, of RBRACE k rest] obtain j where
        "parsed_value v = Some j"
        "parse_members ((QuoteJSONString k @ COLON # mtext) @ RBRACE # rest) = Some ([(k, j)], rest)"
        by auto
      with True Some members_empty_iff [of props] show ?thesis by simp
    next
      case False
      from join_members_Cons [OF False] obtain cs where
        cs: "join [COMMA] (members props) = QUOTE # cs" by blast
      have sk: "skip_ws (join [COMMA] (members props) @ RBRACE # rest)
          = join [COMMA] (members props) @ RBRACE # rest"
        by (simp add: cs skip_ws_Cons)
      from parse_members_member [OF Some, of COMMA k "join [COMMA] (members props) @ RBRACE # rest"]
      obtain j where j: "parsed_value v = Some j"
        and pm: "parse_members ((QuoteJSONString k @ COLON # mtext) @ COMMA #
                   (join [COMMA] (members props) @ RBRACE # rest)) =
           (case parse_members (skip_ws (join [COMMA] (members props) @ RBRACE # rest)) of
              None \<Rightarrow> None
            | Some (kvs, r) \<Rightarrow> Some ((k, j) # kvs, r))"
        by auto
      have "join [COMMA] (members ((k, v) # props)) @ RBRACE # rest
          = (QuoteJSONString k @ COLON # mtext) @ COMMA #
              (join [COMMA] (members props) @ RBRACE # rest)"
        using Some False by (simp add: join_Cons)
      with pm sk j "2.IH"(2) [OF Some False] show ?thesis by simp
    qed
  qed
qed

lemma parse_value_object:
  "parse_value (SerializeJSONObject props @ rest) = Some (parsed_object props, rest)"
proof (cases "members props = []")
  case True
  with members_empty_iff [of props] show ?thesis
    by (simp add: SerializeJSONObject_def parsed_object_def parse_value.simps [of "LBRACE # _"]
        skip_ws_Cons)
next
  case False
  from join_members_Cons [OF False] obtain cs where
    cs: "join [COMMA] (members props) = QUOTE # cs" by blast
  have pm: "parse_members (QUOTE # cs @ RBRACE # rest) = Some (parsed_members props, rest)"
    using parse_members_members [OF False, of rest] by (simp add: cs)
  have "parse_value (LBRACE # (join [COMMA] (members props) @ RBRACE # rest))
      = Some (JObject (parsed_members props), rest)"
    by (subst parse_value.simps) (simp add: cs skip_ws_Cons pm)
  then show ?thesis by (simp add: SerializeJSONObject_def parsed_object_def)
qed

text \<open>The same for the objects of an array, and for the whole text.\<close>

lemma join_objects_Cons:
  "objs \<noteq> [] \<Longrightarrow> \<exists>cs. join [COMMA] (map SerializeJSONObject objs) = LBRACE # cs"
proof -
  assume "objs \<noteq> []"
  then obtain x xs where objs: "objs = x # xs" by (cases objs) auto
  show ?thesis by (cases xs) (simp_all add: objs SerializeJSONObject_def)
qed

lemma parse_elements_objects:
  "objs \<noteq> [] \<Longrightarrow>
   parse_elements (join [COMMA] (map SerializeJSONObject objs) @ RBRACKET # rest) =
     Some (map parsed_object objs, rest)"
proof (induction objs rule: list_nonempty_induct)
  case (single x)
  show ?case
    by (simp add: parse_elements.simps [of "SerializeJSONObject x @ _"] parse_value_object
        skip_ws_Cons)
next
  case (cons x xs)
  from join_objects_Cons [OF cons.hyps] obtain cs where
    cs: "join [COMMA] (map SerializeJSONObject xs) = LBRACE # cs" by blast
  have sk: "skip_ws (join [COMMA] (map SerializeJSONObject xs) @ RBRACKET # rest)
      = join [COMMA] (map SerializeJSONObject xs) @ RBRACKET # rest"
    by (simp add: cs skip_ws_Cons)
  from cons.hyps have "join [COMMA] (map SerializeJSONObject (x # xs)) @ RBRACKET # rest
      = SerializeJSONObject x @ COMMA #
          (join [COMMA] (map SerializeJSONObject xs) @ RBRACKET # rest)"
    by (simp add: join_Cons)
  then show ?case
    by (simp add: parse_elements.simps [of "SerializeJSONObject x @ _"] parse_value_object
        skip_ws_Cons sk cons.IH)
qed

lemma parse_value_array:
  "parse_value (SerializeJSONArray objs @ rest) = Some (JArray (map parsed_object objs), rest)"
proof (cases "objs = []")
  case True
  then show ?thesis
    by (simp add: SerializeJSONArray_def parse_value.simps [of "LBRACKET # _"] skip_ws_Cons)
next
  case False
  from join_objects_Cons [OF False] obtain cs where
    cs: "join [COMMA] (map SerializeJSONObject objs) = LBRACE # cs" by blast
  have pe: "parse_elements (LBRACE # cs @ RBRACKET # rest) = Some (map parsed_object objs, rest)"
    using parse_elements_objects [OF False, of rest] by (simp add: cs)
  have "parse_value (LBRACKET # (join [COMMA] (map SerializeJSONObject objs) @ RBRACKET # rest))
      = Some (JArray (map parsed_object objs), rest)"
    by (subst parse_value.simps) (simp add: cs skip_ws_Cons pe)
  then show ?thesis by (simp add: SerializeJSONArray_def)
qed

lemma JSON_parse_array:
  "JSON_parse (SerializeJSONArray objs) = Some (JArray (map parsed_object objs))"
proof -
  have "skip_ws (SerializeJSONArray objs) = SerializeJSONArray objs"
    by (simp add: SerializeJSONArray_def skip_ws_Cons)
  moreover have "skip_ws [] = []" by (simp add: skip_ws_def)
  ultimately show ?thesis
    using parse_value_array [of objs "[]"] by (simp add: JSON_parse_def)
qed

lemma JSON_parse_object:
  "JSON_parse (SerializeJSONObject props) = Some (parsed_object props)"
proof -
  have "skip_ws (SerializeJSONObject props) = SerializeJSONObject props"
    by (simp add: SerializeJSONObject_def skip_ws_Cons)
  moreover have "skip_ws [] = []" by (simp add: skip_ws_def)
  ultimately show ?thesis
    using parse_value_object [of props "[]"] by (simp add: JSON_parse_def)
qed

text \<open>
  Reading the parsed objects at the type \<open>Todo\<close>: a property is found in the parsed
  object exactly if the object has it with a value other than \<open>undefined\<close>.
\<close>

lemma map_of_rev_distinct:
  "distinct (map fst xs) \<Longrightarrow> map_of (rev xs) = map_of xs"
proof (induction xs)
  case Nil
  show ?case by simp
next
  case (Cons x xs)
  then have IH: "map_of (rev xs) = map_of xs" and fresh: "map_of xs (fst x) = None"
    by (simp_all add: map_of_eq_None_iff)
  show ?case
  proof
    fix k
    show "map_of (rev (x # xs)) k = map_of (x # xs) k"
      using IH fresh by (cases x) (auto simp: map_add_def split: option.splits)
  qed
qed

lemma parsed_members_keys: "fst ` set (parsed_members props) \<subseteq> fst ` set props"
  by (induction props rule: parsed_members.induct) (auto split: option.splits)

lemma parsed_members_distinct:
  "distinct (map fst props) \<Longrightarrow> distinct (map fst (parsed_members props))"
proof (induction props rule: parsed_members.induct)
  case 1
  show ?case by simp
next
  case (2 k v props)
  from 2(3) parsed_members_keys [of props] have "k \<notin> fst ` set (parsed_members props)"
    by auto
  with 2 show ?case by (cases "parsed_value v") simp_all
qed

lemma map_of_parsed_members:
  "distinct (map fst props) \<Longrightarrow>
   map_of (parsed_members props) k = Option.bind (map_of props k) parsed_value"
proof (induction props rule: parsed_members.induct)
  case 1
  show ?case by simp
next
  case (2 k' v props)
  from 2(3) have fresh: "map_of props k' = None" by (simp add: map_of_eq_None_iff)
  from 2 show ?case
    by (cases "parsed_value v") (auto simp: fresh)
qed

lemma prop_parsed_members:
  "distinct (map fst props) \<Longrightarrow>
   map_of (rev (parsed_members props)) k = Option.bind (map_of props k) parsed_value"
  by (simp add: map_of_rev_distinct parsed_members_distinct map_of_parsed_members)

lemma Todo_of_json_parsed_object:
  assumes "represents props todo"
  shows "Todo_of_json (parsed_object props) = Some todo"
proof -
  from assms have d: "distinct (map fst props)" by (simp add: represents_def)
  note p = prop_parsed_members [OF d]
  from assms have fields:
    "map_of (rev (parsed_members props)) (str ''id'') = Some (JString (id' todo))"
    "map_of (rev (parsed_members props)) (str ''title'') = Some (JString (title todo))"
    "map_of (rev (parsed_members props)) (str ''notes'') = Some (JString (notes todo))"
    "map_of (rev (parsed_members props)) (str ''completed'') = Some (JBool (completed todo))"
    "map_of (rev (parsed_members props)) (str ''createdAt'') = Some (JString (createdAt todo))"
    by (simp_all add: p represents_def)
  from assms have due:
    "map_of (rev (parsed_members props)) (str ''dueDate'')
       = (case dueDate todo of None \<Rightarrow> None | Some d \<Rightarrow> Some (JString d))"
    by (cases "dueDate todo") (auto simp: p represents_def)
  show ?thesis
    by (cases "dueDate todo")
       (simp_all add: Todo_of_json_def parsed_object_def fields due as_string_def as_boolean_def)
qed

lemma Todos_of_json_parsed_objects:
  "list_all2 represents objs state \<Longrightarrow>
   Todos_of_json (JArray (map parsed_object objs)) = Some state"
proof (induction rule: list_all2_induct)
  case Nil
  show ?case by (simp add: Todos_of_json_def)
next
  case (Cons x xs y ys)
  then show ?case
    by (simp add: Todos_of_json_def Todo_of_json_parsed_object split: if_splits)
qed

lemma unat_unit: "unat (of_nat (of_char c) :: code_unit) = of_char c"
proof -
  have "(of_char c :: nat) < 2 ^ 16"
    by (rule order_less_trans [OF nat_of_char_less_256]) simp
  then show ?thesis by (simp add: unat_of_nat)
qed

lemma str_inject: "str a = str b \<longleftrightarrow> a = b"
proof -
  have "inj (\<lambda>c :: char. (of_nat (of_char c) :: code_unit))"
  proof (rule injI)
    fix x y :: char
    assume "(of_nat (of_char x) :: code_unit) = of_nat (of_char y)"
    then have "unat (of_nat (of_char x) :: code_unit) = unat (of_nat (of_char y) :: code_unit)"
      by (rule arg_cong)
    then have "(of_char x :: nat) = of_char y" by (simp only: unat_unit)
    then show "x = y" by simp
  qed
  then show ?thesis by (simp add: str_def inj_map_eq_map)
qed

lemma represents_object_of_Todo: "represents (object_of_Todo todo) todo"
  by (cases "dueDate todo") (simp_all add: represents_def object_of_Todo_def str_inject)

section \<open>Properties of the derived views\<close>

lemma includes'_iff_sublist: "includes' h n \<longleftrightarrow> sublist n h"
  by (induction h) (auto simp: sublist_Cons_right)

text \<open>
  C10 as stated fails: the search does not run over the concatenation of title and
  notes but over \<open>`${todo.title} ${todo.notes}`\<close>, with a space between the two. The
  query \<open>bc\<close> is a substring of \<open>abcd\<close>, the concatenation of the title \<open>ab\<close> and the
  notes \<open>cd\<close>, and the task passes the filter \<open>all\<close>, yet the view leaves it out.
\<close>

theorem C10_title_and_notes_joined_by_space:
  "sublist (toLowerCase ''bc'') (toLowerCase (title ab_cd @ notes ab_cd))
   \<and> trim ''bc'' = ''bc''
   \<and> ab_cd \<notin> set (filteredTodos [ab_cd] All ''bc'')"
  by (simp add: filteredTodos_def toLowerCase_def toLowerCase_unit_def trim_def isWhiteSpace_def
      flip: includes'_iff_sublist)

text \<open>
  C10 (amended). For every task list, filter setting and query string, a task appears in
  the filtered view if and only if it is in the list, passes the filter against its
  completed flag and, when the trimmed query is not empty, the lowercased trimmed query
  is a substring of the lowercased text made of the title, one space and the notes. The
  view is a subsequence of the list, and the remaining count is the number of positions
  of the list that hold a task with \<open>completed = false\<close>.
\<close>

theorem C10_filtered_view:
  "(t \<in> set (filteredTodos ts f query) \<longleftrightarrow>
      t \<in> set ts
      \<and> (case f of All \<Rightarrow> True | Active \<Rightarrow> \<not> completed t | Completed \<Rightarrow> completed t)
      \<and> (trim query \<noteq> [] \<longrightarrow>
           sublist (toLowerCase (trim query)) (toLowerCase (title t @ '' '' @ notes t))))
   \<and> subseq (filteredTodos ts f query) ts
   \<and> remainingCount ts = card {k. k < length ts \<and> \<not> completed (ts ! k)}"
  by (cases f) (auto simp: filteredTodos_def Let_def includes'_iff_sublist toLowerCase_def
      remainingCount_def length_filter_conv_card)

theorem C10_filtered_view_witness:
  "trim '' d R '' \<noteq> []
   \<and> sublist (toLowerCase (trim '' d R '')) (toLowerCase (title bread @ '' '' @ notes bread))
   \<and> bread \<in> set (filteredTodos [milk, bread] Completed '' d R '')
   \<and> milk \<notin> set (filteredTodos [milk, bread] Completed '' d R '')
   \<and> remainingCount [milk, bread] = 1"
proof -
  have q: "trim '' d R '' = ''d R''"
    by (simp add: trim_def isWhiteSpace_def)
  have low: "toLowerCase ''d R'' = ''d r''"
    "toLowerCase (title bread @ '' '' @ notes bread) = ''bake bread rye''"
    by code_simp+
  have sub: "sublist (toLowerCase (trim '' d R '')) (toLowerCase (title bread @ '' '' @ notes bread))"
    unfolding q low by (simp flip: includes'_iff_sublist)
  have rest: "remainingCount [milk, bread] = 1"
    by (simp add: remainingCount_def)
  from C10_filtered_view [of bread "[milk, bread]" Completed "'' d R ''"]
    C10_filtered_view [of milk "[milk, bread]" Completed "'' d R ''"] sub q rest
  show ?thesis by simp
qed

section \<open>Properties of the persistence\<close>

lemma JSON_stringify_not_empty: "JSON_stringify state \<noteq> []"
  by (simp add: JSON_stringify_def SerializeJSONArray_def)

lemma run_before_latch:
  "\<not> hydrated s \<Longrightarrow> run s as = Inr (s\<lparr>todos := foldl todoReducer (todos s) as\<rparr>)"
  by (induction as arbitrary: s) (simp_all add: dispatch_def write_back_effect_def)

lemma write_back_effect_latched:
  "hydrated s \<Longrightarrow> writable (localStorage s) \<Longrightarrow>
   write_back_effect s =
     Inr (s\<lparr>localStorage := (localStorage s)
             \<lparr>items := (items (localStorage s))(STORAGE_KEY \<mapsto> JSON_stringify (todos s))\<rparr>\<rparr>)"
  by (simp add: write_back_effect_def setItem_def)

lemma startup_latched:
  "startup st = Inr s \<Longrightarrow>
   hydrated s \<and> writable (localStorage s)
   \<and> items (localStorage s) = (items st)(STORAGE_KEY \<mapsto> JSON_stringify (todos s))"
  by (auto simp: startup_def write_back_effect_def setItem_def hydrated_store_def
      hydration_effect_def split: sum.splits if_splits option.splits)

lemma run_after_latch:
  "hydrated s \<Longrightarrow> writable (localStorage s) \<Longrightarrow>
   items (localStorage s) STORAGE_KEY = Some (JSON_stringify (todos s)) \<Longrightarrow>
   \<exists>s'. run s as = Inr s'
     \<and> todos s' = foldl todoReducer (todos s) as
     \<and> hydrated s' \<and> writable (localStorage s')
     \<and> items (localStorage s') STORAGE_KEY = Some (JSON_stringify (todos s'))
     \<and> (\<forall>key. key \<noteq> STORAGE_KEY \<longrightarrow> items (localStorage s') key = items (localStorage s) key)"
proof (induction as arbitrary: s)
  case Nil
  then show ?case by simp
next
  case (Cons a as)
  from Cons.prems obtain s1 where step: "dispatch a s = Inr s1"
    and s1: "todos s1 = todoReducer (todos s) a" "hydrated s1" "writable (localStorage s1)"
      "items (localStorage s1) STORAGE_KEY = Some (JSON_stringify (todos s1))"
    and frame: "\<forall>key. key \<noteq> STORAGE_KEY \<longrightarrow> items (localStorage s1) key = items (localStorage s) key"
    by (simp add: dispatch_def write_back_effect_latched)
  from Cons.IH [OF s1(2,3,4)] obtain s' where
    "run s1 as = Inr s'" "todos s' = foldl todoReducer (todos s1) as"
    "hydrated s'" "writable (localStorage s')"
    "items (localStorage s') STORAGE_KEY = Some (JSON_stringify (todos s'))"
    "\<forall>key. key \<noteq> STORAGE_KEY \<longrightarrow> items (localStorage s') key = items (localStorage s1) key"
    by blast
  with step s1 frame show ?case by simp
qed

text \<open>
  Where the storage refuses the write, the exception of \<open>setItem\<close> leaves the
  write-back effect: nothing in the effect catches it.
\<close>

lemma write_back_effect_refused:
  "hydrated s \<Longrightarrow> \<not> writable (localStorage s) \<Longrightarrow> write_back_effect s = Inl StorageError"
  by (simp add: write_back_effect_def setItem_def)

text \<open>
  C3. While the latch is not set the write-back effect returns without touching the
  storage, after the first render and after any sequence of transitions. Once the
  latch is set, the effect that follows a transition calls \<open>setItem\<close> with the fixed
  key and the serialised full state, and nothing else; where the storage takes the
  write, the slot of that key then holds that text in place of what it held, and no
  other slot changes, so that after any sequence of transitions the slot holds the
  serialised current state. A session that has started has the latch set and the slot
  holding the serialised state.
\<close>

theorem C3_write_back_waits_for_latch:
  "(\<not> hydrated s \<longrightarrow>
      write_back_effect s = Inr s
      \<and> run s as = Inr (s\<lparr>todos := foldl todoReducer (todos s) as\<rparr>))
   \<and> (hydrated s \<longrightarrow>
      dispatch a s =
        (case setItem (localStorage s) STORAGE_KEY (JSON_stringify (todoReducer (todos s) a)) of
           Inl e \<Rightarrow> Inl e
         | Inr st' \<Rightarrow> Inr \<lparr> todos = todoReducer (todos s) a, hydrated = True, localStorage = st' \<rparr>))
   \<and> (hydrated s \<and> writable (localStorage s) \<longrightarrow>
      dispatch a s =
        Inr \<lparr> todos = todoReducer (todos s) a, hydrated = True,
              localStorage = (localStorage s)
                \<lparr>items := (items (localStorage s))
                   (STORAGE_KEY \<mapsto> JSON_stringify (todoReducer (todos s) a))\<rparr> \<rparr>)
   \<and> (hydrated s \<and> writable (localStorage s)
        \<and> items (localStorage s) STORAGE_KEY = Some (JSON_stringify (todos s)) \<longrightarrow>
      (\<exists>s'. run s as = Inr s'
         \<and> todos s' = foldl todoReducer (todos s) as
         \<and> hydrated s' \<and> writable (localStorage s')
         \<and> items (localStorage s') STORAGE_KEY = Some (JSON_stringify (todos s'))
         \<and> (\<forall>key. key \<noteq> STORAGE_KEY \<longrightarrow>
               items (localStorage s') key = items (localStorage s) key)))
   \<and> (\<forall>s'. startup st = Inr s' \<longrightarrow>
        hydrated s' \<and> writable (localStorage s')
        \<and> items (localStorage s') = (items st)(STORAGE_KEY \<mapsto> JSON_stringify (todos s')))"
proof -
  have "\<not> hydrated s \<longrightarrow> write_back_effect s = Inr s"
    by (simp add: write_back_effect_def)
  moreover have "\<not> hydrated s \<longrightarrow> run s as = Inr (s\<lparr>todos := foldl todoReducer (todos s) as\<rparr>)"
    by (simp add: run_before_latch)
  moreover have "hydrated s \<longrightarrow>
      dispatch a s =
        (case setItem (localStorage s) STORAGE_KEY (JSON_stringify (todoReducer (todos s) a)) of
           Inl e \<Rightarrow> Inl e
         | Inr st' \<Rightarrow> Inr \<lparr> todos = todoReducer (todos s) a, hydrated = True, localStorage = st' \<rparr>)"
    by (simp add: dispatch_def write_back_effect_def split: sum.splits)
  moreover have "hydrated s \<and> writable (localStorage s) \<longrightarrow>
      dispatch a s =
        Inr \<lparr> todos = todoReducer (todos s) a, hydrated = True,
              localStorage = (localStorage s)
                \<lparr>items := (items (localStorage s))
                   (STORAGE_KEY \<mapsto> JSON_stringify (todoReducer (todos s) a))\<rparr> \<rparr>"
    by (simp add: dispatch_def write_back_effect_latched)
  moreover have "hydrated s \<and> writable (localStorage s)
        \<and> items (localStorage s) STORAGE_KEY = Some (JSON_stringify (todos s)) \<longrightarrow>
      (\<exists>s'. run s as = Inr s'
         \<and> todos s' = foldl todoReducer (todos s) as
         \<and> hydrated s' \<and> writable (localStorage s')
         \<and> items (localStorage s') STORAGE_KEY = Some (JSON_stringify (todos s'))
         \<and> (\<forall>key. key \<noteq> STORAGE_KEY \<longrightarrow>
               items (localStorage s') key = items (localStorage s) key))"
    using run_after_latch [of s as] by blast
  moreover have "\<forall>s'. startup st = Inr s' \<longrightarrow>
        hydrated s' \<and> writable (localStorage s')
        \<and> items (localStorage s') = (items st)(STORAGE_KEY \<mapsto> JSON_stringify (todos s'))"
    using startup_latched by blast
  ultimately show ?thesis by blast
qed

theorem C3_write_back_waits_for_latch_witness:
  "run \<lparr> todos = [], hydrated = False, localStorage = browser [STORAGE_KEY \<mapsto> str ''saved''] \<rparr>
       [Add (wide milk), Toggle (str ''a'')]
     = Inr \<lparr> todos = [(wide milk)\<lparr>completed := True\<rparr>], hydrated = False,
             localStorage = browser [STORAGE_KEY \<mapsto> str ''saved''] \<rparr>
   \<and> dispatch (Add (wide milk))
        \<lparr> todos = [wide bread], hydrated = True,
          localStorage = browser [STORAGE_KEY \<mapsto> str ''saved'', str ''other'' \<mapsto> str ''x''] \<rparr>
     = Inr \<lparr> todos = [wide milk, wide bread], hydrated = True,
             localStorage = browser ([STORAGE_KEY \<mapsto> str ''saved'', str ''other'' \<mapsto> str ''x'']
               (STORAGE_KEY \<mapsto> JSON_stringify [wide milk, wide bread])) \<rparr>
   \<and> startup (browser Map.empty)
     = Inr \<lparr> todos = [], hydrated = True, localStorage = browser [STORAGE_KEY \<mapsto> str ''[]''] \<rparr>"
proof -
  have start: "startup (browser Map.empty)
     = Inr \<lparr> todos = [], hydrated = True, localStorage = browser [STORAGE_KEY \<mapsto> str ''[]''] \<rparr>"
    by (simp add: startup_def write_back_effect_def setItem_def hydrated_store_def
        hydration_effect_def hydration_try_def getItem_def Todos_of_json_def
        JSON_stringify_def SerializeJSONArray_def str_def)
  from C3_write_back_waits_for_latch
    [of "\<lparr> todos = [], hydrated = False, localStorage = browser [STORAGE_KEY \<mapsto> str ''saved''] \<rparr>"
      "[Add (wide milk), Toggle (str ''a'')]" "Add (wide milk)" "browser Map.empty"]
    C3_write_back_waits_for_latch
    [of "\<lparr> todos = [wide bread], hydrated = True,
           localStorage = browser [STORAGE_KEY \<mapsto> str ''saved'', str ''other'' \<mapsto> str ''x''] \<rparr>"
      "[]" "Add (wide milk)" "browser Map.empty"]
    start
  show ?thesis by (simp add: setItem_def wide_def)
qed

text \<open>
  No exception leaves the hydration effect: if the read of the stored item throws, or no
  item is stored, or the stored text is not JSON, it returns having dispatched nothing
  and set the latch, and the state is the empty array. Where the storage takes the
  write that follows, the session starts with the empty state.
\<close>

lemma hydration_effect_catches:
  assumes "getItem st STORAGE_KEY = Inl e
    \<or> getItem st STORAGE_KEY = Inr None
    \<or> (\<exists>text. getItem st STORAGE_KEY = Inr (Some text) \<and> JSON_parse text = None)"
  shows "(\<exists>h. hydration_effect st = Inr h \<and> dispatched h = None \<and> setHydrated h)
    \<and> hydrated_store st = Inr (JArray [], True)
    \<and> (writable st \<longrightarrow> (\<exists>s. startup st = Inr s \<and> todos s = [] \<and> hydrated s))"
proof -
  from assms have store: "hydrated_store st = Inr (JArray [], True)"
    and effect: "\<exists>h. hydration_effect st = Inr h \<and> dispatched h = None \<and> setHydrated h"
    by (auto simp: hydrated_store_def hydration_effect_def hydration_try_def
        split: sum.splits if_splits)
  have "writable st \<longrightarrow> (\<exists>s. startup st = Inr s \<and> todos s = [] \<and> hydrated s)"
    by (simp add: startup_def store write_back_effect_def setItem_def Todos_of_json_def)
  with store effect show ?thesis by blast
qed

text \<open>
  C4 fails on the code. Where the storage is unavailable, so that every call of it
  throws, the hydration effect catches the exception of \<open>getItem\<close>, dispatches
  nothing and sets the latch, as C4 says. The latch being set, the component renders
  again and the write-back effect runs with the empty state; its \<open>setItem\<close> throws,
  and nothing around it catches the exception (lines 71-74 have no \<open>try\<close>, unlike
  lines 57-69): an exception escapes at startup.
\<close>

theorem C4_unavailable_storage_throws_at_startup:
  "getItem \<lparr> items = Map.empty, readable = False, writable = False \<rparr> STORAGE_KEY
     = Inl StorageError
   \<and> hydration_effect \<lparr> items = Map.empty, readable = False, writable = False \<rparr>
     = Inr \<lparr> dispatched = None, logged = Some StorageError, setHydrated = True \<rparr>
   \<and> write_back_effect \<lparr> todos = [], hydrated = True,
        localStorage = \<lparr> items = Map.empty, readable = False, writable = False \<rparr> \<rparr>
     = Inl StorageError
   \<and> startup \<lparr> items = Map.empty, readable = False, writable = False \<rparr>
     = Inl (Uncaught StorageError)"
  by (simp add: startup_def write_back_effect_def setItem_def hydrated_store_def
      hydration_effect_def hydration_try_def getItem_def Todos_of_json_def)

text \<open>
  What the text of a task holds: no member is \<open>null\<close>, and there is a member
  \<open>dueDate\<close> exactly if the task has a due date.
\<close>

lemma parsed_members_not_null: "JNull \<notin> snd ` set (parsed_members props)"
proof (induction props rule: parsed_members.induct)
  case 1
  show ?case by simp
next
  case (2 k v props)
  then show ?case by (cases v) auto
qed

lemma parsed_members_dueDate:
  assumes "represents props todo"
  shows "str ''dueDate'' \<in> fst ` set (parsed_members props) \<longleftrightarrow> dueDate todo \<noteq> None"
proof -
  from assms have d: "distinct (map fst props)" by (simp add: represents_def)
  have "str ''dueDate'' \<in> fst ` set (parsed_members props)
      \<longleftrightarrow> map_of (parsed_members props) (str ''dueDate'') \<noteq> None"
    by (simp add: map_of_eq_None_iff)
  also have "\<dots> \<longleftrightarrow> dueDate todo \<noteq> None"
    using assms by (cases "dueDate todo") (auto simp: map_of_parsed_members [OF d] represents_def)
  finally show ?thesis .
qed

lemma SerializeJSONArray_not_empty: "SerializeJSONArray objs \<noteq> []"
  by (simp add: SerializeJSONArray_def)

lemma startup_finds_state:
  assumes stored: "getItem st STORAGE_KEY = Inr (Some (SerializeJSONArray objs))"
    and typed: "list_all2 represents objs S"
  shows "hydration_effect st
      = Inr \<lparr> dispatched = Some (JArray (map parsed_object objs)), logged = None,
              setHydrated = True \<rparr>"
    and "hydrated_store st = Inr (JArray (map parsed_object objs), True)"
    and "writable st \<Longrightarrow> \<exists>s. startup st = Inr s \<and> todos s = S \<and> hydrated s"
proof -
  show effect: "hydration_effect st
      = Inr \<lparr> dispatched = Some (JArray (map parsed_object objs)), logged = None,
              setHydrated = True \<rparr>"
    by (simp add: hydration_effect_def hydration_try_def stored SerializeJSONArray_not_empty
        JSON_parse_array)
  then show store: "hydrated_store st = Inr (JArray (map parsed_object objs), True)"
    by (simp add: hydrated_store_def)
  show "\<exists>s. startup st = Inr s \<and> todos s = S \<and> hydrated s" if "writable st"
    using that
    by (simp add: startup_def store Todos_of_json_parsed_objects [OF typed]
        write_back_effect_def setItem_def)
qed

text \<open>
  C9. Let \<open>S\<close> be any state of type \<open>Todo[]\<close>, reachable ones included, and
  \<open>objs\<close> any array of objects that are the tasks of \<open>S\<close>, whatever the order of
  their keys, whatever their strings, with a property \<open>dueDate\<close> that is absent or
  holds \<open>undefined\<close> where a task has no due date. Parsing the text that
  \<open>JSON.stringify\<close> gives for \<open>objs\<close> yields the array of these objects without
  their undefined properties, which read as a \<open>Todo[]\<close> is \<open>S\<close>. A page that finds
  that text under the storage key dispatches the parsed array as it is, and where it can
  write, its session starts in state \<open>S\<close>. The text of each task parses to an object
  that has a member \<open>dueDate\<close> exactly if the task has a due date, and none of whose
  members is \<open>null\<close>. Hydrating with \<open>S\<close> gives the state \<open>S\<close>. Every \<open>S\<close> has
  such an array, the objects as \<open>addTodo\<close> builds them; their text is what the
  session writes, and parsing it gives \<open>S\<close>.
\<close>

theorem C9_serialisation_round_trip:
  "(list_all2 represents objs S \<longrightarrow>
      JSON_parse (SerializeJSONArray objs) = Some (JArray (map parsed_object objs))
      \<and> Todos_of_json (JArray (map parsed_object objs)) = Some S
      \<and> (getItem st STORAGE_KEY = Inr (Some (SerializeJSONArray objs)) \<longrightarrow>
           hydration_effect st
             = Inr \<lparr> dispatched = Some (JArray (map parsed_object objs)), logged = None,
                     setHydrated = True \<rparr>
           \<and> hydrated_store st = Inr (JArray (map parsed_object objs), True)
           \<and> (writable st \<longrightarrow> (\<exists>s. startup st = Inr s \<and> todos s = S \<and> hydrated s)))
      \<and> list_all2
           (\<lambda>obj todo.
              JSON_parse (SerializeJSONObject obj) = Some (JObject (parsed_members obj))
              \<and> (str ''dueDate'' \<in> fst ` set (parsed_members obj) \<longleftrightarrow> dueDate todo \<noteq> None)
              \<and> JNull \<notin> snd ` set (parsed_members obj))
           objs S)
   \<and> todoReducer S' (Hydrate S) = S
   \<and> list_all2 represents (map object_of_Todo S) S
   \<and> JSON_stringify S = SerializeJSONArray (map object_of_Todo S)
   \<and> (\<exists>parsed. JSON_parse (JSON_stringify S) = Some parsed \<and> Todos_of_json parsed = Some S)"
proof -
  have general: "list_all2 represents objs S \<longrightarrow>
      JSON_parse (SerializeJSONArray objs) = Some (JArray (map parsed_object objs))
      \<and> Todos_of_json (JArray (map parsed_object objs)) = Some S
      \<and> (getItem st STORAGE_KEY = Inr (Some (SerializeJSONArray objs)) \<longrightarrow>
           hydration_effect st
             = Inr \<lparr> dispatched = Some (JArray (map parsed_object objs)), logged = None,
                     setHydrated = True \<rparr>
           \<and> hydrated_store st = Inr (JArray (map parsed_object objs), True)
           \<and> (writable st \<longrightarrow> (\<exists>s. startup st = Inr s \<and> todos s = S \<and> hydrated s)))
      \<and> list_all2
           (\<lambda>obj todo.
              JSON_parse (SerializeJSONObject obj) = Some (JObject (parsed_members obj))
              \<and> (str ''dueDate'' \<in> fst ` set (parsed_members obj) \<longleftrightarrow> dueDate todo \<noteq> None)
              \<and> JNull \<notin> snd ` set (parsed_members obj))
           objs S"
  proof
    assume typed: "list_all2 represents objs S"
    have "getItem st STORAGE_KEY = Inr (Some (SerializeJSONArray objs)) \<longrightarrow>
           hydration_effect st
             = Inr \<lparr> dispatched = Some (JArray (map parsed_object objs)), logged = None,
                     setHydrated = True \<rparr>
           \<and> hydrated_store st = Inr (JArray (map parsed_object objs), True)
           \<and> (writable st \<longrightarrow> (\<exists>s. startup st = Inr s \<and> todos s = S \<and> hydrated s))"
      using startup_finds_state [OF _ typed, of st] by blast
    moreover have "list_all2
           (\<lambda>obj todo.
              JSON_parse (SerializeJSONObject obj) = Some (JObject (parsed_members obj))
              \<and> (str ''dueDate'' \<in> fst ` set (parsed_members obj) \<longleftrightarrow> dueDate todo \<noteq> None)
              \<and> JNull \<notin> snd ` set (parsed_members obj))
           objs S"
      using typed
      by (rule list_all2_mono)
         (simp add: JSON_parse_object [unfolded parsed_object_def] parsed_members_dueDate
            parsed_members_not_null)
    ultimately show "JSON_parse (SerializeJSONArray objs) = Some (JArray (map parsed_object objs))
      \<and> Todos_of_json (JArray (map parsed_object objs)) = Some S
      \<and> (getItem st STORAGE_KEY = Inr (Some (SerializeJSONArray objs)) \<longrightarrow>
           hydration_effect st
             = Inr \<lparr> dispatched = Some (JArray (map parsed_object objs)), logged = None,
                     setHydrated = True \<rparr>
           \<and> hydrated_store st = Inr (JArray (map parsed_object objs), True)
           \<and> (writable st \<longrightarrow> (\<exists>s. startup st = Inr s \<and> todos s = S \<and> hydrated s)))
      \<and> list_all2
           (\<lambda>obj todo.
              JSON_parse (SerializeJSONObject obj) = Some (JObject (parsed_members obj))
              \<and> (str ''dueDate'' \<in> fst ` set (parsed_members obj) \<longleftrightarrow> dueDate todo \<noteq> None)
              \<and> JNull \<notin> snd ` set (parsed_members obj))
           objs S"
      by (simp add: JSON_parse_array Todos_of_json_parsed_objects [OF typed])
  qed
  have canonical: "list_all2 represents (map object_of_Todo S) S"
    by (simp add: list_all2_conv_all_nth represents_object_of_Todo)
  have written: "\<exists>parsed. JSON_parse (JSON_stringify S) = Some parsed \<and> Todos_of_json parsed = Some S"
    using JSON_parse_array [of "map object_of_Todo S"]
      Todos_of_json_parsed_objects [OF canonical]
    by (simp only: JSON_stringify_def) blast
  have "todoReducer S' (Hydrate S) = S" by simp
  moreover have "JSON_stringify S = SerializeJSONArray (map object_of_Todo S)"
    by (simp add: JSON_stringify_def)
  ultimately show ?thesis using general canonical written by blast
qed

theorem C9_serialisation_round_trip_witness:
  "list_all2 represents [late_object, object_of_Todo (wide milk)] [late, wide milk]
   \<and> JSON_parse (SerializeJSONArray [late_object, object_of_Todo (wide milk)])
     = Some (JArray
         [JObject [(str ''id'', JString (str ''z'')),
                   (str ''title'', JString [0x017B, 0xF3, 0x0142, 0x77]),
                   (str ''notes'', JString [0xD83D, 0xDE00, 0xD800, 0x0A]),
                   (str ''completed'', JBool False),
                   (str ''createdAt'', JString (str ''2024-01-03T00:00:00.000Z'')),
                   (str ''dueDate'', JString (str ''2024-03-01''))],
          JObject [(str ''id'', JString (str ''a'')),
                   (str ''title'', JString (str ''Buy milk'')),
                   (str ''notes'', JString []),
                   (str ''completed'', JBool False),
                   (str ''createdAt'', JString (str ''2024-01-01T00:00:00.000Z''))]])
   \<and> hydrated_store
        (browser [STORAGE_KEY \<mapsto> SerializeJSONArray [late_object, object_of_Todo (wide milk)]])
     = Inr (JArray (map parsed_object [late_object, object_of_Todo (wide milk)]), True)
   \<and> (\<exists>s. startup
        (browser [STORAGE_KEY \<mapsto> SerializeJSONArray [late_object, object_of_Todo (wide milk)]])
          = Inr s \<and> todos s = [late, wide milk] \<and> hydrated s)"
proof -
  have typed: "list_all2 represents [late_object, object_of_Todo (wide milk)] [late, wide milk]"
    by (simp add: represents_def object_of_Todo_def wide_def str_def)
  have got: "getItem
      (browser [STORAGE_KEY \<mapsto> SerializeJSONArray [late_object, object_of_Todo (wide milk)]])
      STORAGE_KEY
     = Inr (Some (SerializeJSONArray [late_object, object_of_Todo (wide milk)]))"
    by (simp add: getItem_def)
  have parsed: "parsed_object late_object
     = JObject [(str ''id'', JString (str ''z'')),
                (str ''title'', JString [0x017B, 0xF3, 0x0142, 0x77]),
                (str ''notes'', JString [0xD83D, 0xDE00, 0xD800, 0x0A]),
                (str ''completed'', JBool False),
                (str ''createdAt'', JString (str ''2024-01-03T00:00:00.000Z'')),
                (str ''dueDate'', JString (str ''2024-03-01''))]"
    "parsed_object (object_of_Todo (wide milk))
     = JObject [(str ''id'', JString (str ''a'')),
                (str ''title'', JString (str ''Buy milk'')),
                (str ''notes'', JString []),
                (str ''completed'', JBool False),
                (str ''createdAt'', JString (str ''2024-01-01T00:00:00.000Z''))]"
    by (simp_all add: parsed_object_def object_of_Todo_def wide_def str_def)
  from C9_serialisation_round_trip
    [of "[late_object, object_of_Todo (wide milk)]" "[late, wide milk]"
      "browser [STORAGE_KEY \<mapsto> SerializeJSONArray [late_object, object_of_Todo (wide milk)]]"
      "[]"]
    got typed
  show ?thesis by (simp add: parsed)
qed

end
